theory Spec2Isabelle
  imports Main
begin

section \<open>Go strings\<close>

text \<open>
  A Go string is a sequence of bytes, so it is a \<open>char list\<close> here. The functions of
  package \<open>strings\<close> that the validation package calls are written out: they return what
  the Go library returns, \<open>-1\<close> included.
\<close>

text \<open>\<open>strings.Index(s, sub)\<close>: the byte index of the first occurrence of \<open>sub\<close>, or -1.\<close>

fun Index :: "string \<Rightarrow> string \<Rightarrow> int" where
  "Index [] sub = (if sub = [] then 0 else - 1)"
| "Index (c # s) sub =
     (if take (length sub) (c # s) = sub then 0
      else (let r = Index s sub in if r < 0 then - 1 else r + 1))"

text \<open>\<open>strings.LastIndex(s, sub)\<close>: the byte index of the last occurrence, or -1.\<close>

definition LastIndex :: "string \<Rightarrow> string \<Rightarrow> int" where
  "LastIndex s sub =
     (let r = Index (rev s) (rev sub)
      in if r < 0 then - 1 else int (length s) - r - int (length sub))"

text \<open>
  \<open>strings.Split(s, sep)\<close> for a separator of one byte (the package only splits on
  \<open>";"\<close>, \<open>","\<close> and \<open>"."\<close>). The result is never empty: \<open>Split("", ";")\<close> is \<open>[""]\<close>.
\<close>

fun Split :: "string \<Rightarrow> char \<Rightarrow> string list" where
  "Split [] sep = [[]]"
| "Split (c # s) sep =
     (if c = sep then [] # Split s sep
      else (case Split s sep of p # ps \<Rightarrow> (c # p) # ps | [] \<Rightarrow> [[c]]))"

text \<open>The slice expression \<open>s[a:b]\<close>, for \<open>a \<le> b \<le> len(s)\<close>; callers model the panic otherwise.\<close>

definition slice :: "string \<Rightarrow> nat \<Rightarrow> nat \<Rightarrow> string" where
  "slice s a b = take (b - a) (drop a s)"

text \<open>
  \<open>strings.TrimSpace\<close> strips, at both ends, the code points of \<open>unicode.IsSpace\<close> in
  their UTF-8 encoding: the six ASCII ones, U+0085 and U+00A0 (two bytes), and U+1680,
  U+2000 to U+200A, U+2028, U+2029, U+202F, U+205F, U+3000 (three bytes).
\<close>

definition isSpace1 :: "char \<Rightarrow> bool" where
  "isSpace1 a = (a = CHR 0x09 \<or> a = CHR 0x0A \<or> a = CHR 0x0B \<or> a = CHR 0x0C \<or> a = CHR 0x0D
     \<or> a = CHR 0x20)"

definition isSpace2 :: "char \<Rightarrow> char \<Rightarrow> bool" where
  "isSpace2 a b = (a = CHR 0xC2 \<and> (b = CHR 0x85 \<or> b = CHR 0xA0))"

definition isSpace3 :: "char \<Rightarrow> char \<Rightarrow> char \<Rightarrow> bool" where
  "isSpace3 a b c =
     ((a = CHR 0xE1 \<and> b = CHR 0x9A \<and> c = CHR 0x80)
      \<or> (a = CHR 0xE2 \<and> b = CHR 0x80
          \<and> ((0x80 \<le> (of_char c :: nat) \<and> (of_char c :: nat) \<le> 0x8A)
               \<or> c = CHR 0xA8 \<or> c = CHR 0xA9 \<or> c = CHR 0xAF))
      \<or> (a = CHR 0xE2 \<and> b = CHR 0x81 \<and> c = CHR 0x9F)
      \<or> (a = CHR 0xE3 \<and> b = CHR 0x80 \<and> c = CHR 0x80))"

fun TrimLeft :: "string \<Rightarrow> string" where
  "TrimLeft (a # b # c # s) =
     (if isSpace1 a then TrimLeft (b # c # s)
      else if isSpace2 a b then TrimLeft (c # s)
      else if isSpace3 a b c then TrimLeft s
      else a # b # c # s)"
| "TrimLeft [a, b] =
     (if isSpace1 a then TrimLeft [b] else if isSpace2 a b then [] else [a, b])"
| "TrimLeft [a] = (if isSpace1 a then [] else [a])"
| "TrimLeft [] = []"

text \<open>The same from the end, on the reversed string: the last byte comes first.\<close>

fun TrimRightRev :: "string \<Rightarrow> string" where
  "TrimRightRev (c # b # a # s) =
     (if isSpace1 c then TrimRightRev (b # a # s)
      else if isSpace2 b c then TrimRightRev (a # s)
      else if isSpace3 a b c then TrimRightRev s
      else c # b # a # s)"
| "TrimRightRev [c, b] =
     (if isSpace1 c then TrimRightRev [b] else if isSpace2 b c then [] else [c, b])"
| "TrimRightRev [c] = (if isSpace1 c then [] else [c])"
| "TrimRightRev [] = []"

definition TrimSpace :: "string \<Rightarrow> string" where
  "TrimSpace s = rev (TrimRightRev (rev (TrimLeft s)))"

text \<open>
  \<open>strconv.Atoi\<close> with a 64-bit \<open>int\<close>: an optional sign, then one or more decimal
  digits, and the value must fit.
\<close>

definition isDigit :: "char \<Rightarrow> bool" where
  "isDigit c = (48 \<le> (of_char c :: nat) \<and> (of_char c :: nat) \<le> 57)"

definition digitsVal :: "string \<Rightarrow> int" where
  "digitsVal ds = foldl (\<lambda>n c. 10 * n + (int (of_char c) - 48)) 0 ds"

section \<open>Errors\<close>

text \<open>
  Every \<open>fmt.Errorf\<close> and \<open>errors.New\<close> of the package is a constructor, carrying what the
  message is formatted from. \<open>Recovered\<close> is a run-time panic that a deferred \<open>recover\<close>
  turned into an error (in \<open>parseFunc\<close> and \<open>Funcs.Call\<close>). \<open>Panic\<close> is a run-time panic
  that nothing recovers: it is no returned error, it unwinds through \<open>Valid\<close> to the
  caller.
\<close>

datatype error =
    InvalidFunctionName string
  | DoesNotExist string
  | ParamsNotAdapted
  | InvalidMatchFunction
  | RegexpError string
  | RequireParameters string int
  | InvalidValidFunction
  | NoValidFunction string
  | DoesNotSupport string
  | AtoiError string
  | Recovered string
  | MustBeStruct
  | ErrorMessage string
  | Panic string

definition Atoi :: "string \<Rightarrow> error + int" where
  "Atoi s =
     (let (neg, ds) =
        (case s of
           c # r \<Rightarrow> if c = CHR ''-'' then (True, r) else if c = CHR ''+'' then (False, r)
                    else (False, s)
         | [] \<Rightarrow> (False, s))
      in if ds = [] \<or> \<not> list_all isDigit ds then Inl (AtoiError s)
         else (let n = (if neg then - digitsVal ds else digitsVal ds)
               in if n < - (2 ^ 63) \<or> 2 ^ 63 - 1 < n then Inl (AtoiError s) else Inr n))"

section \<open>The registry\<close>

text \<open>
  What \<open>reflect\<close> tells about a parameter type: its kind, and for a pointer the name of
  the type pointed to.
\<close>

datatype kind = Int_k | String_k | Ptr_k string | Other_k string

text \<open>
  The exported methods of \<open>*Validation\<close>, which \<open>init\<close> enumerates through
  \<open>reflect\<close> (\<open>apply\<close> and \<open>setError\<close> are unexported, so they are not among them).
\<close>

datatype meth =
    Clear_m | HasErrors_m | ErrorMap_m | Error_m
  | Required_m | Min_m | Max_m | Range_m | MinSize_m | MaxSize_m | Length_m
  | Alpha_m | Numeric_m | AlphaNumeric_m | Match_m | NoMatch_m | AlphaDash_m
  | Email_m | IP_m | Base64_m | Mobile_m | Tel_m | Phone_m | ZipCode_m
  | SetError_m | Valid_m

definition methods :: "(string \<times> meth) list" where
  "methods =
     [(''Alpha'', Alpha_m), (''AlphaDash'', AlphaDash_m), (''AlphaNumeric'', AlphaNumeric_m),
      (''Base64'', Base64_m), (''Clear'', Clear_m), (''Email'', Email_m),
      (''Error'', Error_m), (''ErrorMap'', ErrorMap_m), (''HasErrors'', HasErrors_m),
      (''IP'', IP_m), (''Length'', Length_m), (''Match'', Match_m), (''Max'', Max_m),
      (''MaxSize'', MaxSize_m), (''Min'', Min_m), (''MinSize'', MinSize_m),
      (''Mobile'', Mobile_m), (''NoMatch'', NoMatch_m), (''Numeric'', Numeric_m),
      (''Phone'', Phone_m), (''Range'', Range_m), (''Required'', Required_m),
      (''SetError'', SetError_m), (''Tel'', Tel_m), (''Valid'', Valid_m),
      (''ZipCode'', ZipCode_m)]"

text \<open>
  The parameter types of each method value (\<open>m.Func.Type().In(i)\<close>): the receiver
  first, then the declared parameters.
\<close>

definition recv_k :: kind where
  "recv_k = Ptr_k ''validation.Validation''"

definition obj_k :: kind where
  "obj_k = Other_k ''interface''"

definition regexp_k :: kind where
  "regexp_k = Ptr_k ''regexp.Regexp''"

fun In :: "meth \<Rightarrow> kind list" where
  "In Clear_m = [recv_k]"
| "In HasErrors_m = [recv_k]"
| "In ErrorMap_m = [recv_k]"
| "In Error_m = [recv_k, String_k, Other_k ''slice'']"
| "In Required_m = [recv_k, obj_k, String_k, String_k]"
| "In Min_m = [recv_k, obj_k, Int_k, String_k, String_k]"
| "In Max_m = [recv_k, obj_k, Int_k, String_k, String_k]"
| "In Range_m = [recv_k, obj_k, Int_k, Int_k, String_k, String_k]"
| "In MinSize_m = [recv_k, obj_k, Int_k, String_k, String_k]"
| "In MaxSize_m = [recv_k, obj_k, Int_k, String_k, String_k]"
| "In Length_m = [recv_k, obj_k, Int_k, String_k, String_k]"
| "In Alpha_m = [recv_k, obj_k, String_k, String_k]"
| "In Numeric_m = [recv_k, obj_k, String_k, String_k]"
| "In AlphaNumeric_m = [recv_k, obj_k, String_k, String_k]"
| "In Match_m = [recv_k, obj_k, regexp_k, String_k, String_k]"
| "In NoMatch_m = [recv_k, obj_k, regexp_k, String_k, String_k]"
| "In AlphaDash_m = [recv_k, obj_k, String_k, String_k]"
| "In Email_m = [recv_k, obj_k, String_k, String_k]"
| "In IP_m = [recv_k, obj_k, String_k, String_k]"
| "In Base64_m = [recv_k, obj_k, String_k, String_k]"
| "In Mobile_m = [recv_k, obj_k, String_k, String_k]"
| "In Tel_m = [recv_k, obj_k, String_k, String_k]"
| "In Phone_m = [recv_k, obj_k, String_k, String_k]"
| "In ZipCode_m = [recv_k, obj_k, String_k, String_k]"
| "In SetError_m = [recv_k, String_k, String_k]"
| "In Valid_m = [recv_k, obj_k]"

text \<open>
  A value of the map \<open>funcs\<close> is a function value: a method of \<open>*Validation\<close> put there
  by \<open>init\<close>, or a \<open>CustomFunc\<close> put there by \<open>AddCustomFunc\<close>; \<open>'f\<close> is the type of
  the custom function's body.
\<close>

datatype 'f entry = Method meth | Custom 'f

type_synonym 'f Funcs = "string \<rightharpoonup> 'f entry"

text \<open>\<open>CustomFunc\<close> is \<open>func(v *Validation, obj interface{}, key string)\<close>.\<close>

fun TypeIn :: "'f entry \<Rightarrow> kind list" where
  "TypeIn (Method m) = In m"
| "TypeIn (Custom f) = [recv_k, obj_k, String_k]"

definition NumIn :: "'f entry \<Rightarrow> nat" where
  "NumIn e = length (TypeIn e)"

text \<open>The map \<open>unFuncs\<close>; a missing key reads as \<open>false\<close>.\<close>

definition unFuncs :: "string \<Rightarrow> bool" where
  "unFuncs name =
     (name \<in> set [''Clear'', ''HasErrors'', ''ErrorMap'', ''Error'', ''apply'', ''Check'',
                  ''Valid'', ''NoMatch''])"

text \<open>\<open>init\<close>: the value of \<open>funcs\<close> when the program starts.\<close>

definition init :: "'f Funcs" where
  "init = foldl (\<lambda>fs (name, m). if \<not> unFuncs name then fs(name \<mapsto> Method m) else fs)
            Map.empty methods"

text \<open>
  \<open>AddCustomFunc\<close> returns an error or nil, and may write \<open>funcs\<close>: the result is the
  error and the new value of \<open>funcs\<close>.
\<close>

definition AddCustomFunc :: "'f Funcs \<Rightarrow> string \<Rightarrow> 'f \<Rightarrow> error option \<times> 'f Funcs" where
  "AddCustomFunc fs name f =
     (if unFuncs name then (Some (InvalidFunctionName name), fs)
      else (None, fs(name \<mapsto> Custom f)))"

text \<open>\<open>numIn\<close>: the parameters of a rule besides \<open>*Validation\<close>, obj, key and errDesc.\<close>

definition numIn :: "'f Funcs \<Rightarrow> string \<Rightarrow> error + int" where
  "numIn fs name =
     (case fs name of
        None \<Rightarrow> Inl (NoValidFunction name)
      | Some fn \<Rightarrow> Inr (int (NumIn fn) - 4))"

section \<open>The rule compiler\<close>

text \<open>
  A compiled \<open>*regexp.Regexp\<close> is represented by the pattern it was compiled from.
  Package \<open>regexp\<close> is not part of the repository: which patterns compile is the
  parameter \<open>rx\<close> of every function that calls \<open>regexp.Compile\<close>.
\<close>

datatype regexp = Regexp string

definition Compile :: "(string \<Rightarrow> bool) \<Rightarrow> string \<Rightarrow> error + regexp" where
  "Compile rx s = (if rx s then Inr (Regexp s) else Inl (RegexpError s))"

text \<open>The values a rule descriptor holds in \<open>Params []interface{}\<close>.\<close>

datatype param = Int_p int | String_p string | Regexp_p regexp

record ValidFunc =
  Name :: string
  ErrMsg :: string
  Params :: "param list"

definition parseParam :: "(string \<Rightarrow> bool) \<Rightarrow> kind \<Rightarrow> string \<Rightarrow> error + param" where
  "parseParam rx t s =
     (case t of
        Int_k \<Rightarrow> (case Atoi s of Inl e \<Rightarrow> Inl e | Inr i \<Rightarrow> Inr (Int_p i))
      | String_k \<Rightarrow> Inr (String_p s)
      | Ptr_k elem \<Rightarrow>
          if elem \<noteq> ''regexp.Regexp'' then Inl (DoesNotSupport elem)
          else (case Compile rx s of Inl e \<Rightarrow> Inl e | Inr r \<Rightarrow> Inr (Regexp_p r))
      | Other_k k \<Rightarrow> Inl (DoesNotSupport k))"

text \<open>
  The loop of \<open>trim\<close> over \<open>s[i]\<close>. \<open>fn.Type().In(i + 2)\<close> panics when the function has no
  such parameter; \<open>trim\<close> runs inside \<open>parseFunc\<close>, whose deferred \<open>recover\<close> returns the
  panic as an error.
\<close>

fun trimLoop :: "(string \<Rightarrow> bool) \<Rightarrow> kind list \<Rightarrow> nat \<Rightarrow> string list \<Rightarrow> error + param list" where
  "trimLoop rx ins i [] = Inr []"
| "trimLoop rx ins i (x # xs) =
     (if length ins \<le> i + 2 then Inl (Recovered ''reflect: Func index out of bounds'')
      else (case parseParam rx (ins ! (i + 2)) (TrimSpace x) of
              Inl e \<Rightarrow> Inl e
            | Inr p \<Rightarrow>
                (case trimLoop rx ins (i + 1) xs of
                   Inl e \<Rightarrow> Inl e
                 | Inr ps \<Rightarrow> Inr (p # ps))))"

definition trim :: "'f Funcs \<Rightarrow> (string \<Rightarrow> bool) \<Rightarrow> string \<Rightarrow> string \<Rightarrow> string list
    \<Rightarrow> error + param list" where
  "trim fs rx name key s =
     (case fs name of
        None \<Rightarrow> Inl (NoValidFunction name)
      | Some fn \<Rightarrow>
          (case trimLoop rx (TypeIn fn) 0 s of
             Inl e \<Rightarrow> Inl e
           | Inr ts \<Rightarrow> Inr (ts @ [String_p key])))"

text \<open>
  \<open>parseFunc\<close>. The slice \<open>vfunc[start + 1:end]\<close> panics when \<open>")"\<close> comes before
  \<open>"("\<close>; the deferred \<open>recover\<close> returns that as an error.
\<close>

definition parseFunc :: "'f Funcs \<Rightarrow> (string \<Rightarrow> bool) \<Rightarrow> string \<Rightarrow> string \<Rightarrow> string
    \<Rightarrow> error + ValidFunc" where
  "parseFunc fs rx vfunc0 errDesc key =
     (let vfunc = TrimSpace vfunc0;
          start = Index vfunc ''(''
      in if start = - 1 then
           (case numIn fs vfunc of
              Inl e \<Rightarrow> Inl e
            | Inr num \<Rightarrow>
                if num \<noteq> 0 then Inl (RequireParameters vfunc num)
                else Inr \<lparr>Name = vfunc, ErrMsg = errDesc,
                          Params = [String_p (key @ ''.'' @ vfunc)]\<rparr>)
         else
           (let end = Index vfunc '')''
            in if end = - 1 then Inl InvalidValidFunction
               else
                 (let name = TrimSpace (slice vfunc 0 (nat start))
                  in case numIn fs name of
                       Inl e \<Rightarrow> Inl e
                     | Inr num \<Rightarrow>
                         if end < start + 1 then Inl (Recovered ''slice bounds out of range'')
                         else
                           (let params = Split (slice vfunc (nat start + 1) (nat end)) (CHR '','')
                            in if num \<noteq> int (length params)
                               then Inl (RequireParameters name num)
                               else (case trim fs rx name (key @ ''.'' @ name) params of
                                       Inl e \<Rightarrow> Inl e
                                     | Inr tParams \<Rightarrow>
                                         Inr \<lparr>Name = name, ErrMsg = errDesc,
                                              Params = tParams\<rparr>)))))"

text \<open>
  The loop of \<open>getRegFuncs\<close> over \<open>strings.Split(tag, ";")\<close>: it picks the description of
  the clause that holds \<open>"Match(/"\<close> and writes the other descriptions to the buffer.
  The state is \<open>(regDescTag, errDestTagBuffer)\<close>.
\<close>

fun regDescLoop :: "string list \<Rightarrow> nat \<Rightarrow> string list \<Rightarrow> string \<times> string \<Rightarrow> string \<times> string" where
  "regDescLoop errDescTags idx [] (regDescTag, buf) = (regDescTag, buf)"
| "regDescLoop errDescTags idx (aTag # rest) (regDescTag, buf) =
     (if 0 \<le> Index (TrimSpace aTag) ''Match(/''
      then regDescLoop errDescTags (idx + 1) rest
             (if idx < length errDescTags then errDescTags ! idx else regDescTag, buf)
      else regDescLoop errDescTags (idx + 1) rest
             (regDescTag,
              (let buf1 = (if 0 < idx \<and> idx < length errDescTags then buf @ '';'' else buf)
               in if idx < length errDescTags then buf1 @ errDescTags ! idx else buf1)))"

text \<open>
  \<open>getRegFuncs\<close> returns \<open>(vfs, newTag, newErrDescTag)\<close> or an error. Nothing recovers
  a panic here: when the last \<open>"/)"\<close> starts inside the first \<open>"Match(/"\<close>, the slice
  \<open>tag[index + 7:end]\<close> has its bounds out of order.
\<close>

definition getRegFuncs :: "(string \<Rightarrow> bool) \<Rightarrow> string \<Rightarrow> string \<Rightarrow> string
    \<Rightarrow> error + (ValidFunc list \<times> string \<times> string)" where
  "getRegFuncs rx tag errDescTag key =
     (let index = Index tag ''Match(/''
      in if index = - 1 then Inr ([], tag, errDescTag)
         else
           (let end = LastIndex tag ''/)''
            in if end < index then Inl InvalidMatchFunction
               else if end < index + 7 then Inl (Panic ''slice bounds out of range'')
               else
                 (case Compile rx (slice tag (nat index + 7) (nat end)) of
                    Inl e \<Rightarrow> Inl e
                  | Inr reg \<Rightarrow>
                      (let (regDescTag, newErrDescTag) =
                             (if 0 < length errDescTag then
                                (if Index errDescTag '';'' < 0 then (errDescTag, [])
                                 else regDescLoop (Split errDescTag (CHR '';'')) 0
                                        (Split tag (CHR '';'')) ([], []))
                              else ([], []))
                       in Inr ([\<lparr>Name = ''Match'', ErrMsg = regDescTag,
                                 Params = [Regexp_p reg, String_p (key @ ''.Match'')]\<rparr>],
                               TrimSpace (slice tag 0 (nat index))
                                 @ TrimSpace (drop (nat end + 2) tag),
                               newErrDescTag)))))"

text \<open>
  What the package uses of a \<open>reflect.StructField\<close>: the field's name, its \<open>PkgPath\<close>
  (\<open>reflect\<close> leaves it empty exactly for an exported field) and the values of its tags
  \<open>valid\<close> and \<open>vdesc\<close> (\<open>Tag.Get\<close> gives \<open>""\<close> for a missing tag).
\<close>

record StructField =
  FieldName :: string
  PkgPath :: string
  validTag :: string
  vdescTag :: string

text \<open>
  The loop of \<open>getValidFuncs\<close> over the clauses \<open>fs\<close>, with the index \<open>idx\<close> and the
  descriptors appended so far.
\<close>

fun clauseLoop :: "'f Funcs \<Rightarrow> (string \<Rightarrow> bool) \<Rightarrow> string \<Rightarrow> string \<Rightarrow> string list \<Rightarrow> bool
    \<Rightarrow> nat \<Rightarrow> string list \<Rightarrow> ValidFunc list \<Rightarrow> error + ValidFunc list" where
  "clauseLoop fs rx key errDescTag fsDesc isFsArray idx [] vfs = Inr vfs"
| "clauseLoop fs rx key errDescTag fsDesc isFsArray idx (vfunc # rest) vfs =
     (if length vfunc = 0
      then clauseLoop fs rx key errDescTag fsDesc isFsArray (idx + 1) rest vfs
      else
        (let errDesc = (if \<not> isFsArray then errDescTag
                        else if idx < length fsDesc then fsDesc ! idx else [])
         in case parseFunc fs rx vfunc errDesc key of
              Inl e \<Rightarrow> Inl e
            | Inr vf \<Rightarrow>
                clauseLoop fs rx key errDescTag fsDesc isFsArray (idx + 1) rest (vfs @ [vf])))"

definition getValidFuncs :: "'f Funcs \<Rightarrow> (string \<Rightarrow> bool) \<Rightarrow> StructField
    \<Rightarrow> error + ValidFunc list" where
  "getValidFuncs fs rx f =
     (let tag = TrimSpace (validTag f)
      in if length tag = 0 then Inr []
         else
           (let errDescTag = TrimSpace (vdescTag f)
            in case getRegFuncs rx tag errDescTag (FieldName f) of
                 Inl e \<Rightarrow> Inl e
               | Inr (vfs, tag', errDescTag') \<Rightarrow>
                   (let isFsArray = (0 \<le> Index errDescTag' '';'');
                        fsDesc = (if isFsArray then Split errDescTag' (CHR '';'') else [])
                    in clauseLoop fs rx (FieldName f) errDescTag' fsDesc isFsArray 0
                         (Split tag' (CHR '';'')) vfs)))"

section \<open>The error model\<close>

text \<open>
  An \<open>interface{}\<close> value is an \<open>'a option\<close>: \<open>None\<close> is the nil interface. The fields
  \<open>Name\<close> and \<open>Field\<close> of \<open>Error\<close> carry a prime, since \<open>Name\<close> is a field of
  \<open>ValidFunc\<close> and \<open>Field\<close> a constant of HOL.
\<close>

record 'a Error =
  Message :: string
  Key :: string
  Name' :: string
  Field' :: string
  Tmpl :: string
  Value :: "'a option"
  LimitValue :: "'a option"

text \<open>
  The context and the results share their errors through pointers (\<open>*Error\<close>), and
  \<open>Result.Key\<close> and \<open>Result.Message\<close> write through them. So the errors live in a store:
  a list of \<open>Error\<close> values, a pointer being an index of it, and \<open>&Error{...}\<close> appending
  a new cell. A nil pointer is \<open>None\<close>.
\<close>

type_synonym addr = nat

record Result =
  Error :: "addr option"
  Ok :: bool

text \<open>\<open>ErrorsMap\<close> is \<open>None\<close> while the Go map is nil.\<close>

record Validation =
  Errors :: "addr list"
  ErrorsMap :: "(string \<rightharpoonup> addr) option"

type_synonym 'a state = "'a Error list \<times> Validation"




definition Clear :: "Validation \<Rightarrow> Validation" where
  "Clear v = v\<lparr>Errors := [], ErrorsMap := None\<rparr>"

definition HasErrors :: "Validation \<Rightarrow> bool" where
  "HasErrors v = (0 < length (Errors v))"

definition ErrorMap :: "Validation \<Rightarrow> (string \<rightharpoonup> addr) option" where
  "ErrorMap v = ErrorsMap v"



text \<open>\<open>setError\<close>, given the pointer \<open>err\<close>.\<close>

definition setError :: "addr \<Rightarrow> 'a state \<Rightarrow> 'a state" where
  "setError err st =
     (case st of (h, v) \<Rightarrow>
        (let m = (case ErrorsMap v of None \<Rightarrow> Map.empty | Some mm \<Rightarrow> mm);
             f = Field' (h ! err)
         in (h, v\<lparr>Errors := Errors v @ [err],
                  ErrorsMap := Some (if m f = None then m(f \<mapsto> err) else m)\<rparr>)))"

definition SetError :: "'a state \<Rightarrow> string \<Rightarrow> string \<Rightarrow> addr \<times> 'a state" where
  "SetError st fieldName errMsg =
     (case st of (h, v) \<Rightarrow>
        (let err = \<lparr>Message = errMsg, Key = fieldName, Name' = [], Field' = fieldName,
                    Tmpl = errMsg, Value = None, LimitValue = None\<rparr>;
             a = length h
         in (a, setError a (h @ [err], v))))"

section \<open>The predicate library\<close>

text \<open>
  The validator values that the methods of \<open>*Validation\<close> build, such as \<open>Required{key}\<close>
  or \<open>Range{Min{Min: min}, Max{Max: max}, key}\<close>; the last component is the key. The
  regular expressions of \<open>AlphaDash\<close>, \<open>Email\<close>, \<open>IP\<close>, \<open>Base64\<close>, \<open>Mobile\<close>, \<open>Tel\<close>,
  \<open>Phone\<close> and \<open>ZipCode\<close> are package variables, the same in every value.
\<close>

datatype chk =
    Required_chk string
  | Min_chk int string
  | Max_chk int string
  | Range_chk int int string
  | MinSize_chk int string
  | MaxSize_chk int string
  | Length_chk int string
  | Alpha_chk string
  | Numeric_chk string
  | AlphaNumeric_chk string
  | Match_chk regexp string
  | NoMatch_chk regexp string
  | AlphaDash_chk string
  | Email_chk string
  | IP_chk string
  | Base64_chk string
  | Mobile_chk string
  | Tel_chk string
  | Phone_chk string
  | ZipCode_chk string

text \<open>
  Modelled from the spec: the validator types and their methods are in a file of the
  package that is not under src/. The spec says of a predicate that it "carries its own
  key identifying which field/rule produced it": \<open>GetKey\<close> returns the key the value was
  built with.
\<close>

fun GetKey :: "chk \<Rightarrow> string" where
  "GetKey (Required_chk k) = k"
| "GetKey (Min_chk n k) = k"
| "GetKey (Max_chk n k) = k"
| "GetKey (Range_chk n m k) = k"
| "GetKey (MinSize_chk n k) = k"
| "GetKey (MaxSize_chk n k) = k"
| "GetKey (Length_chk n k) = k"
| "GetKey (Alpha_chk k) = k"
| "GetKey (Numeric_chk k) = k"
| "GetKey (AlphaNumeric_chk k) = k"
| "GetKey (Match_chk r k) = k"
| "GetKey (NoMatch_chk r k) = k"
| "GetKey (AlphaDash_chk k) = k"
| "GetKey (Email_chk k) = k"
| "GetKey (IP_chk k) = k"
| "GetKey (Base64_chk k) = k"
| "GetKey (Mobile_chk k) = k"
| "GetKey (Tel_chk k) = k"
| "GetKey (Phone_chk k) = k"
| "GetKey (ZipCode_chk k) = k"

text \<open>
  The rest of that file is a parameter: what \<open>IsSatisfied\<close>, \<open>DefaultMessage\<close> and
  \<open>GetLimitValue\<close> return for each validator, and the map \<open>MessageTmpls\<close> (a missing key
  reads as \<open>""\<close>).
\<close>

record 'a lib =
  IsSatisfied :: "chk \<Rightarrow> 'a option \<Rightarrow> bool"
  DefaultMessage :: "chk \<Rightarrow> string"
  GetLimitValue :: "chk \<Rightarrow> 'a option"
  MessageTmpls :: "string \<Rightarrow> string"

text \<open>\<open>Validation.apply\<close> (\<open>apply\<close> is a keyword here) returns the \<open>*Result\<close> and leaves
  the context changed.\<close>

definition Validation_apply :: "'a lib \<Rightarrow> chk \<Rightarrow> 'a option \<Rightarrow> string \<Rightarrow> 'a state \<Rightarrow> Result \<times> 'a state" where
  "Validation_apply L c obj errDesc st =
     (if IsSatisfied L c obj then (\<lparr>Error = None, Ok = True\<rparr>, st)
      else
        (let key = GetKey c;
             parts = Split key (CHR ''.'');
             (Field, Name) = (if length parts = 2 then (parts ! 0, parts ! 1) else ([], key));
             errMsg = (if TrimSpace errDesc = [] then DefaultMessage L c else errDesc);
             err = \<lparr>Message = errMsg, Key = key, Name' = Name, Field' = Field,
                    Tmpl = MessageTmpls L Name, Value = obj,
                    LimitValue = GetLimitValue L c\<rparr>;
             a = length (fst st)
         in (\<lparr>Error = Some a, Ok = False\<rparr>, setError a (fst st @ [err], snd st))))"

section \<open>Dispatch\<close>

text \<open>
  The arguments \<open>Valid\<close> hands to \<open>funcs.Call\<close>: the context \<open>v\<close>, the field's value,
  the parameters of the descriptor and the description.
\<close>

datatype 'a arg = Validation_a | Iface_a "'a option" | Int_a int | String_a string
  | Regexp_a regexp

fun paramArg :: "param \<Rightarrow> 'a arg" where
  "paramArg (Int_p i) = Int_a i"
| "paramArg (String_p s) = String_a s"
| "paramArg (Regexp_p r) = Regexp_a r"

definition mergeParam :: "'a option \<Rightarrow> string \<Rightarrow> param list \<Rightarrow> 'a arg list" where
  "mergeParam obj errDesc params =
     ([Validation_a, Iface_a obj] @ map paramArg params) @ [String_a errDesc]"

text \<open>
  The arguments of a rule method, by its signature:
  \<open>(obj, key, errDesc)\<close>, \<open>(obj, n int, key, errDesc)\<close>, \<open>(obj, min, max int, key, errDesc)\<close>
  and \<open>(obj, regex, key, errDesc)\<close>. \<open>None\<close> when the arguments do not have these types.
\<close>

definition args0 :: "(string \<Rightarrow> chk) \<Rightarrow> 'a arg list \<Rightarrow> (chk \<times> 'a option \<times> string) option" where
  "args0 mk args =
     (case args of
        [Validation_a, Iface_a obj, String_a key, String_a d] \<Rightarrow> Some (mk key, obj, d)
      | _ \<Rightarrow> None)"

definition args1 :: "(int \<Rightarrow> string \<Rightarrow> chk) \<Rightarrow> 'a arg list \<Rightarrow> (chk \<times> 'a option \<times> string) option" where
  "args1 mk args =
     (case args of
        [Validation_a, Iface_a obj, Int_a n, String_a key, String_a d] \<Rightarrow> Some (mk n key, obj, d)
      | _ \<Rightarrow> None)"

definition args2 :: "(int \<Rightarrow> int \<Rightarrow> string \<Rightarrow> chk) \<Rightarrow> 'a arg list
    \<Rightarrow> (chk \<times> 'a option \<times> string) option" where
  "args2 mk args =
     (case args of
        [Validation_a, Iface_a obj, Int_a n, Int_a m, String_a key, String_a d] \<Rightarrow>
          Some (mk n m key, obj, d)
      | _ \<Rightarrow> None)"

definition argsRe :: "(regexp \<Rightarrow> string \<Rightarrow> chk) \<Rightarrow> 'a arg list
    \<Rightarrow> (chk \<times> 'a option \<times> string) option" where
  "argsRe mk args =
     (case args of
        [Validation_a, Iface_a obj, Regexp_a r, String_a key, String_a d] \<Rightarrow>
          Some (mk r key, obj, d)
      | _ \<Rightarrow> None)"

text \<open>
  The body of each rule method is \<open>return v.apply(X{..., key}, obj, errDesc)\<close>:
  \<open>chkOf\<close> gives the validator, the value and the description that it passes on.
\<close>

definition chkOf :: "meth \<Rightarrow> 'a arg list \<Rightarrow> (chk \<times> 'a option \<times> string) option" where
  "chkOf m args =
     (case m of
        Required_m \<Rightarrow> args0 Required_chk args
      | Min_m \<Rightarrow> args1 Min_chk args
      | Max_m \<Rightarrow> args1 Max_chk args
      | Range_m \<Rightarrow> args2 Range_chk args
      | MinSize_m \<Rightarrow> args1 MinSize_chk args
      | MaxSize_m \<Rightarrow> args1 MaxSize_chk args
      | Length_m \<Rightarrow> args1 Length_chk args
      | Alpha_m \<Rightarrow> args0 Alpha_chk args
      | Numeric_m \<Rightarrow> args0 Numeric_chk args
      | AlphaNumeric_m \<Rightarrow> args0 AlphaNumeric_chk args
      | Match_m \<Rightarrow> argsRe Match_chk args
      | NoMatch_m \<Rightarrow> argsRe NoMatch_chk args
      | AlphaDash_m \<Rightarrow> args0 AlphaDash_chk args
      | Email_m \<Rightarrow> args0 Email_chk args
      | IP_m \<Rightarrow> args0 IP_chk args
      | Base64_m \<Rightarrow> args0 Base64_chk args
      | Mobile_m \<Rightarrow> args0 Mobile_chk args
      | Tel_m \<Rightarrow> args0 Tel_chk args
      | Phone_m \<Rightarrow> args0 Phone_chk args
      | ZipCode_m \<Rightarrow> args0 ZipCode_chk args
      | _ \<Rightarrow> None)"

text \<open>
  Calling a method value through \<open>reflect\<close>: the new state, or \<open>None\<close> when
  \<open>reflect\<close> panics because an argument does not have the parameter's type.
  \<open>Error\<close> and \<open>Valid\<close> are never called this way, \<open>unFuncs\<close> keeps them out of
  \<open>funcs\<close>: their bodies are not part of \<open>invoke\<close>.
\<close>

definition invoke :: "'a lib \<Rightarrow> meth \<Rightarrow> 'a arg list \<Rightarrow> 'a state \<Rightarrow> 'a state option" where
  "invoke L m args st =
     (case chkOf m args of
        Some (c, obj, d) \<Rightarrow> Some (snd (Validation_apply L c obj d st))
      | None \<Rightarrow>
          (case m of
             SetError_m \<Rightarrow>
               (case args of
                  [Validation_a, String_a fieldName, String_a errMsg] \<Rightarrow>
                    Some (snd (SetError st fieldName errMsg))
                | _ \<Rightarrow> None)
           | Clear_m \<Rightarrow> (case args of [Validation_a] \<Rightarrow> Some (fst st, Clear (snd st)) | _ \<Rightarrow> None)
           | HasErrors_m \<Rightarrow> (case args of [Validation_a] \<Rightarrow> Some st | _ \<Rightarrow> None)
           | ErrorMap_m \<Rightarrow> (case args of [Validation_a] \<Rightarrow> Some st | _ \<Rightarrow> None)
           | _ \<Rightarrow> None))"

text \<open>
  The body of a \<open>CustomFunc\<close>: from the context, the value and the key to the new
  context, and the panic's message if it panics.
\<close>

type_synonym 'a CustomFunc = "'a state \<Rightarrow> 'a option \<Rightarrow> string \<Rightarrow> string option \<times> 'a state"

text \<open>
  \<open>Funcs.Call\<close>. \<open>Valid\<close> drops the result values, so the model returns the error and the
  state. \<open>reflect.ValueOf\<close> of a nil interface is the zero \<open>Value\<close>, and \<open>Call\<close> panics on
  a zero \<open>Value\<close> argument; every panic is recovered into an error.
\<close>

definition Call :: "'a lib \<Rightarrow> 'a CustomFunc Funcs \<Rightarrow> string \<Rightarrow> 'a arg list \<Rightarrow> 'a state
    \<Rightarrow> error option \<times> 'a state" where
  "Call L fs name params st =
     (case fs name of
        None \<Rightarrow> (Some (DoesNotExist name), st)
      | Some fn \<Rightarrow>
          if length params \<noteq> NumIn fn then (Some ParamsNotAdapted, st)
          else if Iface_a None \<in> set params
          then (Some (Recovered ''reflect: Call using zero Value argument''), st)
          else
            (case fn of
               Method m \<Rightarrow>
                 (case invoke L m params st of
                    None \<Rightarrow> (Some (Recovered ''reflect: Call using wrong argument type''), st)
                  | Some st' \<Rightarrow> (None, st'))
             | Custom f \<Rightarrow>
                 (case params of
                    [Validation_a, Iface_a obj, String_a key] \<Rightarrow>
                      (case f st obj key of
                         (Some msg, st') \<Rightarrow> (Some (Recovered msg), st')
                       | (None, st') \<Rightarrow> (None, st'))
                  | _ \<Rightarrow> (Some (Recovered ''reflect: Call using wrong argument type''), st))))"

section \<open>The execution engine\<close>

text \<open>
  Whether a field is exported, as Go decides it from the first character of its name: an
  ASCII first character must be one of \<open>A\<close> to \<open>Z\<close>; for any other first character Go asks
  \<open>unicode.IsUpper\<close>, which the model reads off \<open>PkgPath\<close>.
\<close>

definition IsExported :: "StructField \<Rightarrow> bool" where
  "IsExported f =
     (case FieldName f of
        [] \<Rightarrow> False
      | c # cs \<Rightarrow>
          if (of_char c :: nat) < 128 then 65 \<le> (of_char c :: nat) \<and> (of_char c :: nat) \<le> 90
          else PkgPath f = [])"

text \<open>
  The argument of \<open>Valid\<close>: a struct, or a pointer to one, given by its fields in
  declaration order, each with the value it holds as an \<open>interface{}\<close>; a nil pointer to a
  struct, which has the fields of its type and no values; the nil interface; or a value
  of another type.
\<close>

datatype 'a input =
    Struct "(StructField \<times> 'a option) list"
  | StructPtr "(StructField \<times> 'a option) list"
  | NilStructPtr "StructField list"
  | Nil_in
  | Other_in

text \<open>
  The expression \<open>objV.Field(i).Interface()\<close>. \<open>objV\<close> is the zero \<open>Value\<close> when \<open>obj\<close> is a
  nil pointer, and \<open>Field\<close> panics on it; \<open>Interface\<close> panics on the value of a field that
  is not exported. The expression is an argument of \<open>mergeParam\<close>: it is evaluated in
  \<open>Valid\<close> itself, before \<open>funcs.Call\<close> is entered, and nothing recovers these panics.
\<close>

definition FieldInterface :: "bool \<Rightarrow> StructField \<Rightarrow> 'a option \<Rightarrow> error + 'a option" where
  "FieldInterface isValid f val =
     (if \<not> isValid then Inl (Panic ''reflect: call of reflect.Value.Field on zero Value'')
      else if \<not> IsExported f
      then Inl (Panic ''reflect.Value.Interface: cannot return value obtained from unexported field or method'')
      else Inr val)"

text \<open>
  The two loops of \<open>Valid\<close>. The rule loop is given the outcome of
  \<open>objV.Field(i).Interface()\<close>, which it evaluates anew for every rule, and the field loop
  whether \<open>objV\<close> is a valid \<open>Value\<close>. Beside the error and the state they return the
  descriptors that were dispatched, in order: \<open>Valid\<close> itself keeps no such list, it is
  there to say which rules ran.
\<close>

fun ruleLoop :: "'a lib \<Rightarrow> 'a CustomFunc Funcs \<Rightarrow> error + 'a option \<Rightarrow> ValidFunc list
    \<Rightarrow> 'a state \<Rightarrow> error option \<times> 'a state \<times> ValidFunc list" where
  "ruleLoop L fs iface [] st = (None, st, [])"
| "ruleLoop L fs iface (vf # vfs) st =
     (case iface of
        Inl e \<Rightarrow> (Some e, st, [])
      | Inr obj \<Rightarrow>
          (case Call L fs (Name vf) (mergeParam obj (ErrMsg vf) (Params vf)) st of
             (Some e, st') \<Rightarrow> (Some e, st', [vf])
           | (None, st') \<Rightarrow>
               if HasErrors (snd st')
               then (Some (ErrorMessage (Message (fst st' ! (Errors (snd st') ! 0)))), st', [vf])
               else (case ruleLoop L fs iface vfs st' of
                       (r, st'', called) \<Rightarrow> (r, st'', vf # called))))"

fun fieldLoop :: "'a lib \<Rightarrow> 'a CustomFunc Funcs \<Rightarrow> (string \<Rightarrow> bool) \<Rightarrow> bool
    \<Rightarrow> (StructField \<times> 'a option) list \<Rightarrow> 'a state
    \<Rightarrow> error option \<times> 'a state \<times> ValidFunc list" where
  "fieldLoop L fs rx isValid [] st = (None, st, [])"
| "fieldLoop L fs rx isValid ((f, val) # rest) st =
     (case getValidFuncs fs rx f of
        Inl e \<Rightarrow> (Some e, st, [])
      | Inr vfs \<Rightarrow>
          (case ruleLoop L fs (FieldInterface isValid f val) vfs st of
             (Some e, st', called) \<Rightarrow> (Some e, st', called)
           | (None, st', called) \<Rightarrow>
               (case fieldLoop L fs rx isValid rest st' of
                  (r, st'', called') \<Rightarrow> (r, st'', called @ called'))))"

text \<open>
  \<open>Valid\<close>. \<open>reflect.TypeOf(nil)\<close> is the nil \<open>Type\<close>, and \<open>isStruct\<close> calls \<open>Kind\<close> on
  it: a nil pointer dereference that nothing recovers.
\<close>

definition Valid :: "'a lib \<Rightarrow> 'a CustomFunc Funcs \<Rightarrow> (string \<Rightarrow> bool) \<Rightarrow> 'a state \<Rightarrow> 'a input
    \<Rightarrow> error option \<times> 'a state \<times> ValidFunc list" where
  "Valid L fs rx st obj =
     (case obj of
        Struct fl \<Rightarrow> fieldLoop L fs rx True fl st
      | StructPtr fl \<Rightarrow> fieldLoop L fs rx True fl st
      | NilStructPtr ts \<Rightarrow> fieldLoop L fs rx False (map (\<lambda>f. (f, None)) ts) st
      | Nil_in \<Rightarrow> (Some (Panic ''invalid memory address or nil pointer dereference''), st, [])
      | Other_in \<Rightarrow> (Some MustBeStruct, st, []))"

section \<open>Notions of the specification\<close>

text \<open>
  The catalog of built-in rules with the number of parameters each is documented with
  (the list of supported functions of the package's documentation, and \<open>NoMatch\<close>, which
  the specification's catalog adds with its pattern).
\<close>

definition catalog :: "(string \<times> int) list" where
  "catalog =
     [(''Required'', 0), (''Min'', 1), (''Max'', 1), (''Range'', 2), (''MinSize'', 1),
      (''MaxSize'', 1), (''Length'', 1), (''Alpha'', 0), (''Numeric'', 0),
      (''AlphaNumeric'', 0), (''Match'', 1), (''NoMatch'', 1), (''AlphaDash'', 0),
      (''Email'', 0), (''IP'', 0), (''Base64'', 0), (''Mobile'', 0), (''Tel'', 0),
      (''Phone'', 0), (''ZipCode'', 0)]"


text \<open>The \<open>Error\<close> value that \<open>apply\<close> builds when the validator is not satisfied.\<close>

definition applyError :: "'a lib \<Rightarrow> chk \<Rightarrow> 'a option \<Rightarrow> string \<Rightarrow> 'a Error" where
  "applyError L c obj errDesc =
     (let key = GetKey c;
          parts = Split key (CHR ''.'')
      in \<lparr>Message = (if TrimSpace errDesc = [] then DefaultMessage L c else errDesc),
          Key = key,
          Name' = (if length parts = 2 then parts ! 1 else key),
          Field' = (if length parts = 2 then parts ! 0 else []),
          Tmpl = MessageTmpls L (if length parts = 2 then parts ! 1 else key),
          Value = obj,
          LimitValue = GetLimitValue L c\<rparr>)"

text \<open>
  For the examples: a predicate library over integers in which \<open>Required\<close> fails on nil
  and on 0, \<open>Range(min, max)\<close> holds between its bounds, both included, and every other
  predicate holds; and the zero value \<open>Validation{}\<close> of a context.
\<close>

definition demoLib :: "int lib" where
  "demoLib =
     \<lparr>IsSatisfied = (\<lambda>c obj.
          case c of
            Required_chk k \<Rightarrow> obj \<noteq> None \<and> obj \<noteq> Some 0
          | Range_chk lo hi k \<Rightarrow> (case obj of Some x \<Rightarrow> lo \<le> x \<and> x \<le> hi | None \<Rightarrow> False)
          | _ \<Rightarrow> True),
      DefaultMessage = (\<lambda>c. ''invalid''),
      GetLimitValue = (\<lambda>c. None),
      MessageTmpls = (\<lambda>n. [])\<rparr>"

definition emptyContext :: Validation where
  "emptyContext = \<lparr>Errors = [], ErrorsMap = None\<rparr>"

text \<open>
  \<open>sub\<close> occurs in \<open>s\<close> at the byte index \<open>j\<close>.
\<close>

definition occursAt :: "string \<Rightarrow> string \<Rightarrow> nat \<Rightarrow> bool" where
  "occursAt s sub j = (j + length sub \<le> length s \<and> take (length sub) (drop j s) = sub)"

text \<open>
  The description that the clause with index \<open>i\<close> of an annotation is to receive from
  the description string \<open>d\<close>: all of \<open>d\<close> when it has no \<open>';'\<close>, else the piece of \<open>d\<close>
  with that index, or the empty string when \<open>d\<close> has fewer pieces.
\<close>

definition descAt :: "string \<Rightarrow> nat \<Rightarrow> string" where
  "descAt d i =
     (if Index d '';'' < 0 then d
      else if i < length (Split d (CHR '';'')) then Split d (CHR '';'') ! i else [])"

text \<open>
  The validator that a compiled rule is dispatched to: the registered function is a rule
  method of the context and the parameters of the descriptor have the types of its
  parameters; the validator is the one the method builds from them. \<open>None\<close> when the
  name is not registered, is registered to a custom function, or the parameters do not
  fit: \<open>funcs.Call\<close> then returns an error and no predicate is evaluated. (The
  validator does not depend on the value and the description that are passed along with
  the parameters, so \<open>mergeParam\<close> is given the nil value and the empty description.)
\<close>

definition resolve :: "'f Funcs \<Rightarrow> ValidFunc \<Rightarrow> chk option" where
  "resolve fs vf =
     (case fs (Name vf) of
        Some (Method m) \<Rightarrow>
          map_option fst (chkOf m (mergeParam (None :: unit option) [] (Params vf)))
      | _ \<Rightarrow> None)"

text \<open>
  The rules of a record in the order \<open>Valid\<close> meets them: field after field, each
  field's compiled descriptors in their compiled order, each with the value of its field.
  A rule holds when it is dispatched to a validator that the field's value satisfies.
\<close>

definition rulesOf :: "'f Funcs \<Rightarrow> (string \<Rightarrow> bool) \<Rightarrow> (StructField \<times> 'a option) list
    \<Rightarrow> ('a option \<times> ValidFunc) list" where
  "rulesOf fs rx fl =
     concat (map (\<lambda>(f, val). case getValidFuncs fs rx f of
                                 Inr vfs \<Rightarrow> map (Pair val) vfs
                               | Inl e \<Rightarrow> []) fl)"

definition holds :: "'a lib \<Rightarrow> 'f Funcs \<Rightarrow> 'a option \<times> ValidFunc \<Rightarrow> bool" where
  "holds L fs r =
     (case resolve fs (snd r) of Some c \<Rightarrow> IsSatisfied L c (fst r) | None \<Rightarrow> False)"




section \<open>Facts about the string functions\<close>

lemma Index_ge: "- 1 \<le> Index s sub"
  by (induction s) (auto simp: Let_def)

lemma Index_neg_iff: "(Index s sub < 0) = (Index s sub = - 1)"
  using Index_ge [of s sub] by auto

lemma Index_notin: "x \<notin> set s \<Longrightarrow> Index s [x] = - 1"
  by (induction s) (auto simp: Let_def)

lemma Index_first: "x \<notin> set n \<Longrightarrow> Index (n @ x # r) [x] = int (length n)"
  by (induction n) (auto simp: Let_def)

lemma Split_nonempty: "Split s c \<noteq> []"
  by (induction s) (auto split: list.splits)

lemma Split_length: "length (Split s c) = Suc (length (filter (\<lambda>x. x = c) s))"
  by (induction s) (auto split: list.splits simp: Split_nonempty)

lemma Split_notin: "c \<notin> set s \<Longrightarrow> Split s c = [s]"
  by (induction s) auto

lemma Split_two:
  "Split s c = [a, b] \<Longrightarrow> s = a @ c # b \<and> c \<notin> set a \<and> c \<notin> set b"
proof (induction s arbitrary: a)
  case Nil
  then show ?case by simp
next
  case (Cons x s)
  show ?case
  proof (cases "x = c")
    case True
    with Cons.prems have "a = []" "Split s c = [b]" by auto
    moreover from this(2) have "c \<notin> set b"
    proof -
      have "length (Split s c) = 1" using \<open>Split s c = [b]\<close> by simp
      then have "filter (\<lambda>x. x = c) s = []" by (simp add: Split_length)
      then have "c \<notin> set s" by (auto simp: filter_empty_conv)
      then show ?thesis using \<open>Split s c = [b]\<close> by (simp add: Split_notin)
    qed
    moreover have "s = b"
    proof -
      have "length (Split s c) = 1" using \<open>Split s c = [b]\<close> by simp
      then have "filter (\<lambda>x. x = c) s = []" by (simp add: Split_length)
      then have "c \<notin> set s" by (auto simp: filter_empty_conv)
      then show ?thesis using \<open>Split s c = [b]\<close> by (simp add: Split_notin)
    qed
    ultimately show ?thesis using True by simp
  next
    case False
    with Cons.prems obtain p where p: "Split s c = [p, b]" "a = x # p"
      by (auto split: list.splits)
    from Cons.IH [OF p(1)] p(2) False show ?thesis by auto
  qed
qed

lemma key_one_dot:
  assumes "length (filter (\<lambda>x. x = CHR ''.'') key) = 1"
  shows "\<exists>a b. Split key (CHR ''.'') = [a, b] \<and> key = a @ ''.'' @ b
           \<and> CHR ''.'' \<notin> set a \<and> CHR ''.'' \<notin> set b"
proof -
  from assms have "length (Split key (CHR ''.'')) = 2" by (simp add: Split_length)
  then obtain a b where ab: "Split key (CHR ''.'') = [a, b]"
    by (cases "Split key (CHR ''.'')"; cases "tl (Split key (CHR ''.''))") auto
  from Split_two [OF ab] ab show ?thesis by auto
qed

text \<open>
  \<open>Index\<close> gives the first occurrence and \<open>LastIndex\<close> the last one, and -1 when there
  is none.
\<close>

lemma occursAt_Cons: "occursAt (c # s) sub (Suc j) = occursAt s sub j"
  by (simp add: occursAt_def)

lemma occursAt_0: "occursAt s sub 0 = (take (length sub) s = sub)"
proof -
  have "length sub \<le> length s" if "take (length sub) s = sub"
  proof -
    from that have "length (take (length sub) s) = length sub" by simp
    then show ?thesis by simp
  qed
  then show ?thesis by (auto simp: occursAt_def)
qed

lemma Index_found:
  "Index s sub = int i \<Longrightarrow> occursAt s sub i \<and> (\<forall>j < i. \<not> occursAt s sub j)"
proof (induction s arbitrary: i)
  case Nil
  then show ?case by (auto simp: occursAt_def split: if_splits)
next
  case (Cons c s)
  show ?case
  proof (cases "take (length sub) (c # s) = sub")
    case True
    with Cons.prems have "i = 0" by simp
    with True show ?thesis by (simp add: occursAt_0)
  next
    case False
    with Cons.prems have r: "0 \<le> Index s sub" "Index s sub + 1 = int i"
      by (auto simp: Let_def split: if_splits)
    define k where "k = nat (Index s sub)"
    with r have k: "Index s sub = int k" "i = Suc k" by auto
    from Cons.IH [OF k(1)] have ih: "occursAt s sub k" "\<forall>j < k. \<not> occursAt s sub j" by auto
    have "\<not> occursAt (c # s) sub 0" using False by (simp add: occursAt_0)
    moreover have "\<forall>j < Suc k. j \<noteq> 0 \<longrightarrow> \<not> occursAt (c # s) sub j"
    proof (intro allI impI)
      fix j assume "j < Suc k" "j \<noteq> 0"
      then obtain j' where "j = Suc j'" "j' < k" by (cases j) auto
      with ih(2) show "\<not> occursAt (c # s) sub j" by (simp add: occursAt_Cons)
    qed
    ultimately show ?thesis using ih(1) k(2) by (auto simp: occursAt_Cons)
  qed
qed

lemma Index_not_found: "Index s sub = - 1 \<Longrightarrow> \<not> occursAt s sub j"
proof (induction s arbitrary: j)
  case Nil
  then show ?case by (auto simp: occursAt_def split: if_splits)
next
  case (Cons c s)
  from Cons.prems have n: "take (length sub) (c # s) \<noteq> sub" and r: "Index s sub = - 1"
    using Index_ge [of s sub] by (auto simp: Let_def split: if_splits)
  show ?case
  proof (cases j)
    case 0
    with n show ?thesis by (simp add: occursAt_0)
  next
    case (Suc j')
    with Cons.IH [OF r] show ?thesis by (simp add: occursAt_Cons)
  qed
qed


lemma Index_cases: "Index s sub = - 1 \<or> (\<exists>i. Index s sub = int i)"
proof (cases "Index s sub < 0")
  case True
  then show ?thesis by (simp add: Index_neg_iff)
next
  case False
  then have "Index s sub = int (nat (Index s sub))" by simp
  then show ?thesis by blast
qed

lemma Index_eq:
  assumes "occursAt s sub i" "\<forall>j < i. \<not> occursAt s sub j"
  shows "Index s sub = int i"
proof -
  from Index_cases [of s sub] show ?thesis
  proof
    assume "Index s sub = - 1"
    from Index_not_found [OF this, of i] assms(1) show ?thesis by simp
  next
    assume "\<exists>k. Index s sub = int k"
    then obtain k where k: "Index s sub = int k" by blast
    from Index_found [OF k] assms have "\<not> k < i" "\<not> i < k" by auto
    with k show ?thesis by simp
  qed
qed

lemma occursAt_rev:
  "occursAt (rev s) (rev sub) j
     = (j + length sub \<le> length s \<and> occursAt s sub (length s - j - length sub))"
proof (cases "j + length sub \<le> length s")
  case False
  then show ?thesis by (simp add: occursAt_def)
next
  case True
  have "take (length sub) (drop j (rev s))
      = rev (take (length sub) (drop (length s - j - length sub) s))"
    using True by (simp add: rev_take rev_drop drop_take) 
  with True show ?thesis by (auto simp: occursAt_def)
qed

lemma LastIndex_found:
  assumes "LastIndex s sub = int e"
  shows "occursAt s sub e \<and> (\<forall>j > e. \<not> occursAt s sub j)"
proof -
  from assms have nn: "\<not> Index (rev s) (rev sub) < 0"
    by (auto simp: LastIndex_def Let_def split: if_splits)
  define r where "r = nat (Index (rev s) (rev sub))"
  with nn have r: "Index (rev s) (rev sub) = int r" by simp
  from assms nn r have e: "int e = int (length s) - int r - int (length sub)"
    by (simp add: LastIndex_def Let_def)
  from Index_found [OF r] have o: "occursAt (rev s) (rev sub) r"
    and b: "\<forall>j < r. \<not> occursAt (rev s) (rev sub) j" by auto
  from o have le: "r + length sub \<le> length s" and os: "occursAt s sub (length s - r - length sub)"
    by (simp_all add: occursAt_rev)
  from e le have ee: "e = length s - r - length sub" by linarith
  have "\<not> occursAt s sub j" if "j > e" for j
  proof
    assume a: "occursAt s sub j"
    then have jl: "j + length sub \<le> length s" by (simp add: occursAt_def)
    let ?j' = "length s - j - length sub"
    from that ee jl le have "?j' < r" by linarith
    with b have "\<not> occursAt (rev s) (rev sub) ?j'" by simp
    moreover from jl have "length s - ?j' - length sub = j" by linarith
    ultimately show False using a jl by (simp add: occursAt_rev)
  qed
  with os ee show ?thesis by simp
qed

lemma LastIndex_not_found:
  assumes "LastIndex s sub = - 1"
  shows "\<not> occursAt s sub j"
proof
  assume a: "occursAt s sub j"
  then have jl: "j + length sub \<le> length s" by (simp add: occursAt_def)
  have "Index (rev s) (rev sub) = - 1"
  proof (rule ccontr)
    assume "Index (rev s) (rev sub) \<noteq> - 1"
    with Index_cases [of "rev s" "rev sub"] obtain r where
      r: "Index (rev s) (rev sub) = int r" by auto
    from Index_found [OF r] have "r + length sub \<le> length s"
      by (simp add: occursAt_rev)
    with assms r show False by (simp add: LastIndex_def Let_def)
  qed
  from Index_not_found [OF this, of "length s - j - length sub"] a jl
  show False
    by (simp add: occursAt_rev)
qed

lemma LastIndex_cases: "LastIndex s sub = - 1 \<or> (\<exists>e. LastIndex s sub = int e)"
proof (cases "Index (rev s) (rev sub) < 0")
  case True
  then show ?thesis by (simp add: LastIndex_def)
next
  case False
  with Index_cases [of "rev s" "rev sub"] obtain r where
    r: "Index (rev s) (rev sub) = int r" by auto
  from Index_found [OF r] have "r + length sub \<le> length s" by (simp add: occursAt_rev)
  then have "int (length s) - int r - int (length sub) = int (length s - r - length sub)"
    by linarith
  with r False have "LastIndex s sub = int (length s - r - length sub)"
    by (simp add: LastIndex_def Let_def)
  then show ?thesis by blast
qed

lemma LastIndex_eq:
  assumes "occursAt s sub e" "\<forall>j > e. \<not> occursAt s sub j"
  shows "LastIndex s sub = int e"
proof -
  from LastIndex_cases [of s sub] show ?thesis
  proof
    assume "LastIndex s sub = - 1"
    from LastIndex_not_found [OF this, of e] assms(1) show ?thesis by simp
  next
    assume "\<exists>k. LastIndex s sub = int k"
    then obtain k where k: "LastIndex s sub = int k" by blast
    from LastIndex_found [OF k] assms have "\<not> k < e" "\<not> e < k" by auto
    with k show ?thesis by simp
  qed
qed


lemma occurs_between:
  assumes "occursAt tag open i" "occursAt tag close e" "i + length open \<le> e"
  shows "tag = take i tag @ open @ slice tag (i + length open) e @ close
                 @ drop (e + length close) tag"
proof -
  from assms have a: "take (length open) (drop i tag) = open"
    and b: "take (length close) (drop e tag) = close" by (simp_all add: occursAt_def)
  have 1: "tag = take i tag @ drop i tag" by simp
  have 2: "drop i tag = take (length open) (drop i tag) @ drop (i + length open) tag"
    by (metis append_take_drop_id drop_drop add.commute)
  have 3: "drop (i + length open) tag
      = take (e - (i + length open)) (drop (i + length open) tag) @ drop e tag"
    using assms(3) by (metis append_take_drop_id drop_drop le_add_diff_inverse2)
  have 4: "drop e tag = take (length close) (drop e tag) @ drop (e + length close) tag"
    by (metis append_take_drop_id drop_drop add.commute)
  show ?thesis
    unfolding slice_def using 1 2 3 4 a b by metis
qed

section \<open>Evaluating the compiler on concrete annotations\<close>

lemmas trim_defs = TrimSpace_def isSpace1_def isSpace2_def isSpace3_def

lemmas compile_defs = getValidFuncs_def getRegFuncs_def LastIndex_def slice_def Compile_def
  parseFunc_def numIn_def NumIn_def trim_def parseParam_def Atoi_def isDigit_def digitsVal_def
  recv_k_def obj_k_def regexp_k_def

lemma init_simps:
  "(init :: 'f Funcs) ''Required'' = Some (Method Required_m)"
  "(init :: 'f Funcs) ''Min'' = Some (Method Min_m)"
  "(init :: 'f Funcs) ''Range'' = Some (Method Range_m)"
  "(init :: 'f Funcs) ''Match'' = Some (Method Match_m)"
  unfolding init_def methods_def unfolding unFuncs_def by simp_all

lemmas run_defs = Valid_def Call_def invoke_def chkOf_def args0_def args1_def args2_def
  argsRe_def mergeParam_def Validation_apply_def HasErrors_def setError_def
  FieldInterface_def IsExported_def

lemmas demo_defs = demoLib_def emptyContext_def

section \<open>Facts about the error model\<close>






lemma setError_Errors: "Errors (snd (setError b (h, v))) = Errors v @ [b]"
  by (simp add: setError_def Let_def)

lemma apply_failing:
  "\<not> IsSatisfied L c obj \<Longrightarrow>
   Validation_apply L c obj d (h, v)
     = (\<lparr>Error = Some (length h), Ok = False\<rparr>,
        setError (length h) (h @ [applyError L c obj d], v))"
  by (simp add: Validation_apply_def applyError_def Let_def split: prod.splits)

lemma apply_satisfied:
  "IsSatisfied L c obj \<Longrightarrow> Validation_apply L c obj d st = (\<lparr>Error = None, Ok = True\<rparr>, st)"
  by (simp add: Validation_apply_def)


lemma applyError_simps:
  "Key (applyError L c obj d) = GetKey c"
  "Message (applyError L c obj d) = (if TrimSpace d = [] then DefaultMessage L c else d)"
  "Value (applyError L c obj d) = obj"
  "Field' (applyError L c obj d)
     = (if length (Split (GetKey c) (CHR ''.'')) = 2 then Split (GetKey c) (CHR ''.'') ! 0 else [])"
  "Name' (applyError L c obj d)
     = (if length (Split (GetKey c) (CHR ''.'')) = 2 then Split (GetKey c) (CHR ''.'') ! 1
        else GetKey c)"
  by (simp_all add: applyError_def Let_def)

section \<open>Facts about the compiler and the dispatch\<close>

lemma clauseLoop_order:
  "clauseLoop fs rx key d fsDesc isArr idx cs acc = Inr vfs \<Longrightarrow>
   \<exists>rest. vfs = acc @ rest
     \<and> list_all2 (\<lambda>c vf. \<exists>dd. parseFunc fs rx c dd key = Inr vf)
          (filter (\<lambda>c. c \<noteq> []) cs) rest"
proof (induction cs arbitrary: idx acc)
  case Nil
  then show ?case by simp
next
  case (Cons c cs)
  show ?case
  proof (cases "c = []")
    case True
    with Cons show ?thesis by simp
  next
    case False
    let ?dd = "if \<not> isArr then d else if idx < length fsDesc then fsDesc ! idx else []"
    from Cons.prems False obtain vf where
      p: "parseFunc fs rx c ?dd key = Inr vf" and
      l: "clauseLoop fs rx key d fsDesc isArr (idx + 1) cs (acc @ [vf]) = Inr vfs"
      by (auto simp: Let_def split: sum.splits)
    from Cons.IH [OF l] obtain rest where
      r: "vfs = (acc @ [vf]) @ rest"
        "list_all2 (\<lambda>c vf. \<exists>dd. parseFunc fs rx c dd key = Inr vf)
          (filter (\<lambda>c. c \<noteq> []) cs) rest"
      by blast
    have "list_all2 (\<lambda>c vf. \<exists>dd. parseFunc fs rx c dd key = Inr vf)
          (filter (\<lambda>c. c \<noteq> []) (c # cs)) (vf # rest)"
      using False p r(2) by auto
    with r(1) show ?thesis by auto
  qed
qed

lemma parseFunc_key:
  "parseFunc fs rx c d key = Inr vf \<Longrightarrow>
   Params vf \<noteq> [] \<and> last (Params vf) = String_p (key @ ''.'' @ Name vf)"
  by (auto simp: parseFunc_def trim_def Let_def split: if_splits sum.splits option.splits)

lemma list_all2_set2:
  "list_all2 P xs ys \<Longrightarrow> y \<in> set ys \<Longrightarrow> \<exists>x \<in> set xs. P x y"
  by (induction rule: list_all2_induct) auto

lemma compiled_key:
  assumes "getValidFuncs fs rx f = Inr vfs" "vf \<in> set vfs"
  shows "Params vf \<noteq> [] \<and> last (Params vf) = String_p (FieldName f @ ''.'' @ Name vf)"
proof (cases "TrimSpace (validTag f) = []")
  case True
  with assms show ?thesis by (simp add: getValidFuncs_def)
next
  case False
  with assms(1) obtain m tag' desc' where
    g: "getRegFuncs rx (TrimSpace (validTag f)) (TrimSpace (vdescTag f)) (FieldName f)
          = Inr (m, tag', desc')"
    by (auto simp: getValidFuncs_def Let_def split: sum.splits)
  from assms(1) False g obtain d fsDesc isArr where
    c: "clauseLoop fs rx (FieldName f) d fsDesc isArr 0 (Split tag' (CHR '';'')) m = Inr vfs"
    by (auto simp: getValidFuncs_def Let_def)
  from clauseLoop_order [OF c] obtain rest where
    r: "vfs = m @ rest"
       "list_all2 (\<lambda>c vf. \<exists>dd. parseFunc fs rx c dd (FieldName f) = Inr vf)
          (filter (\<lambda>c. c \<noteq> []) (Split tag' (CHR '';''))) rest"
    by blast
  from assms(2) r(1) consider "vf \<in> set m" | "vf \<in> set rest" by auto
  then show ?thesis
  proof cases
    case 1
    with g show ?thesis
      by (auto simp: getRegFuncs_def Let_def Compile_def split: if_splits prod.splits)
  next
    case 2
    from list_all2_set2 [OF r(2) 2] obtain cl dd where
      "parseFunc fs rx cl dd (FieldName f) = Inr vf" by blast
    then show ?thesis by (rule parseFunc_key)
  qed
qed

lemma paramArg_String: "paramArg p = String_a k \<Longrightarrow> p = String_p k"
  by (cases p) auto

lemma chkOf_key:
  assumes "chkOf m (mergeParam obj d ps) = Some (c, obj', d')"
  shows "obj' = obj \<and> d' = d \<and> ps \<noteq> [] \<and> last ps = String_p (GetKey c)"
proof -
  have a0: "args0 mk (mergeParam obj d ps) = Some (c, obj', d') \<Longrightarrow>
      obj' = obj \<and> d' = d \<and> (\<exists>k. ps = [String_p k] \<and> c = mk k)" for mk
    by (cases ps; cases "tl ps")
       (auto simp: args0_def mergeParam_def split: list.splits arg.splits dest!: paramArg_String)
  have a1: "args1 mk (mergeParam obj d ps) = Some (c, obj', d') \<Longrightarrow>
      obj' = obj \<and> d' = d \<and> (\<exists>n k. ps = [Int_p n, String_p k] \<and> c = mk n k)" for mk
    by (cases ps; cases "tl ps"; cases "tl (tl ps)"; cases "hd ps")
       (auto simp: args1_def mergeParam_def split: list.splits arg.splits dest!: paramArg_String)
  have a2: "args2 mk (mergeParam obj d ps) = Some (c, obj', d') \<Longrightarrow>
      obj' = obj \<and> d' = d \<and> (\<exists>n n' k. ps = [Int_p n, Int_p n', String_p k] \<and> c = mk n n' k)" for mk
    by (cases ps; cases "tl ps"; cases "tl (tl ps)"; cases "tl (tl (tl ps))"; cases "hd ps";
        cases "hd (tl ps)")
       (auto simp: args2_def mergeParam_def split: list.splits arg.splits dest!: paramArg_String)
  have ar: "argsRe mk (mergeParam obj d ps) = Some (c, obj', d') \<Longrightarrow>
      obj' = obj \<and> d' = d \<and> (\<exists>r k. ps = [Regexp_p r, String_p k] \<and> c = mk r k)" for mk
    by (cases ps; cases "tl ps"; cases "tl (tl ps)"; cases "hd ps")
       (auto simp: argsRe_def mergeParam_def split: list.splits arg.splits dest!: paramArg_String)
  from assms show ?thesis
    by (cases m) (auto simp: chkOf_def dest!: a0 a1 a2 ar)
qed

lemma parseFunc_ErrMsg: "parseFunc fs rx c d key = Inr vf \<Longrightarrow> ErrMsg vf = d"
  by (auto simp: parseFunc_def Let_def split: if_splits sum.splits)

lemma clauseLoop_descs:
  "clauseLoop fs rx key d fsDesc isArr idx cs acc = Inr vfs \<Longrightarrow>
   \<exists>rest. vfs = acc @ rest
     \<and> list_all2 (\<lambda>(i, c) vf.
           parseFunc fs rx c (if \<not> isArr then d
                              else if i < length fsDesc then fsDesc ! i else []) key = Inr vf)
          (filter (\<lambda>(i, c). c \<noteq> []) (enumerate idx cs)) rest"
proof (induction cs arbitrary: idx acc)
  case Nil
  then show ?case by simp
next
  case (Cons c cs)
  show ?case
  proof (cases "c = []")
    case True
    with Cons.prems have "clauseLoop fs rx key d fsDesc isArr (Suc idx) cs acc = Inr vfs"
      by simp
    from Cons.IH [OF this] True show ?thesis by simp
  next
    case False
    let ?dd = "if \<not> isArr then d else if idx < length fsDesc then fsDesc ! idx else []"
    from Cons.prems False obtain vf where
      p: "parseFunc fs rx c ?dd key = Inr vf" and
      l: "clauseLoop fs rx key d fsDesc isArr (Suc idx) cs (acc @ [vf]) = Inr vfs"
      by (auto simp: Let_def split: sum.splits)
    from Cons.IH [OF l] obtain rest where
      r: "vfs = (acc @ [vf]) @ rest"
        "list_all2 (\<lambda>(i, c) vf.
           parseFunc fs rx c (if \<not> isArr then d
                              else if i < length fsDesc then fsDesc ! i else []) key = Inr vf)
          (filter (\<lambda>(i, c). c \<noteq> []) (enumerate (Suc idx) cs)) rest"
      by blast
    have "list_all2 (\<lambda>(i, c) vf.
           parseFunc fs rx c (if \<not> isArr then d
                              else if i < length fsDesc then fsDesc ! i else []) key = Inr vf)
          (filter (\<lambda>(i, c). c \<noteq> []) (enumerate idx (c # cs))) (vf # rest)"
      using False p r(2) by simp
    with r(1) show ?thesis by auto
  qed
qed

section \<open>Facts about the dispatch and the loops of Valid\<close>

lemma paramArg_not_Iface: "paramArg p \<noteq> Iface_a x" "Iface_a x \<noteq> paramArg p"
  by (cases p; simp)+

lemma paramArg_not_Validation: "paramArg p \<noteq> Validation_a"
  by (cases p) auto

lemma mergeParam_no_nil: "obj \<noteq> None \<Longrightarrow> Iface_a None \<notin> set (mergeParam obj d ps)"
  by (auto simp: mergeParam_def paramArg_not_Iface)

lemma length_mergeParam: "length (mergeParam obj d ps) = length ps + 3"
  by (simp add: mergeParam_def)

lemma args0_any:
  "args0 mk (mergeParam (obj :: 'a option) d ps)
     = map_option (\<lambda>(c, _, _). (c, obj, d)) (args0 mk (mergeParam (obj0 :: 'b option) d0 ps))"
  by (cases ps; cases "tl ps"; cases "hd ps")
     (auto simp: args0_def mergeParam_def split: list.splits arg.splits)

lemma args1_any:
  "args1 mk (mergeParam (obj :: 'a option) d ps)
     = map_option (\<lambda>(c, _, _). (c, obj, d)) (args1 mk (mergeParam (obj0 :: 'b option) d0 ps))"
  by (cases ps; cases "tl ps"; cases "tl (tl ps)"; cases "hd ps"; cases "hd (tl ps)")
     (auto simp: args1_def mergeParam_def split: list.splits arg.splits)

lemma args2_any:
  "args2 mk (mergeParam (obj :: 'a option) d ps)
     = map_option (\<lambda>(c, _, _). (c, obj, d)) (args2 mk (mergeParam (obj0 :: 'b option) d0 ps))"
  by (cases ps; cases "tl ps"; cases "tl (tl ps)"; cases "tl (tl (tl ps))"; cases "hd ps";
      cases "hd (tl ps)"; cases "hd (tl (tl ps))")
     (auto simp: args2_def mergeParam_def split: list.splits arg.splits)

lemma argsRe_any:
  "argsRe mk (mergeParam (obj :: 'a option) d ps)
     = map_option (\<lambda>(c, _, _). (c, obj, d)) (argsRe mk (mergeParam (obj0 :: 'b option) d0 ps))"
  by (cases ps; cases "tl ps"; cases "tl (tl ps)"; cases "hd ps"; cases "hd (tl ps)")
     (auto simp: argsRe_def mergeParam_def split: list.splits arg.splits)

lemma chkOf_any:
  "chkOf m (mergeParam (obj :: 'a option) d ps)
     = map_option (\<lambda>(c, _, _). (c, obj, d)) (chkOf m (mergeParam (obj0 :: 'b option) d0 ps))"
  by (cases m)
     (simp_all add: chkOf_def args0_any [of _ obj d ps obj0 d0] args1_any [of _ obj d ps obj0 d0]
        args2_any [of _ obj d ps obj0 d0] argsRe_any [of _ obj d ps obj0 d0])


lemma chkOf_length: "chkOf m args = Some x \<Longrightarrow> length args = length (In m)"
  by (cases m)
     (auto simp: chkOf_def args0_def args1_def args2_def argsRe_def
           split: list.splits arg.splits)

lemma Call_resolve:
  assumes "resolve fs vf = Some c" "obj \<noteq> None"
  shows "Call L fs (Name vf) (mergeParam obj (ErrMsg vf) (Params vf)) st
           = (None, snd (Validation_apply L c obj (ErrMsg vf) st))"
proof -
  from assms(1) obtain m o0 d0 where
    m: "fs (Name vf) = Some (Method m)" and
    c0: "chkOf m (mergeParam (None :: unit option) [] (Params vf)) = Some (c, o0, d0)"
    by (auto simp: resolve_def split: option.splits entry.splits)
  from c0 chkOf_any [of m obj "ErrMsg vf" "Params vf" "None :: unit option" "[]"]
  have c1: "chkOf m (mergeParam obj (ErrMsg vf) (Params vf)) = Some (c, obj, ErrMsg vf)"
    by simp
  from chkOf_length [OF c1]
  have l: "length (mergeParam obj (ErrMsg vf) (Params vf)) = NumIn (Method m :: 'a CustomFunc entry)"
    by (simp add: NumIn_def)
  from m c1 l mergeParam_no_nil [OF assms(2)] show ?thesis
    by (simp add: Call_def invoke_def)
qed

lemma Call_compiled:
  assumes "Call L fs name (mergeParam obj d ps) st = (None, st')" "ps \<noteq> []"
  shows "\<exists>c. st' = snd (Validation_apply L c obj d st)"
proof -
  let ?args = "mergeParam obj d ps"
  from assms(2) have len: "4 \<le> length ?args"
    by (cases ps) (simp_all add: length_mergeParam)
  from assms(1) obtain fn where fn: "fs name = Some fn" "length ?args = NumIn fn"
    by (auto simp: Call_def split: option.splits if_splits)
  show ?thesis
  proof (cases fn)
    case (Custom f)
    with fn(2) len show ?thesis by (simp add: NumIn_def)
  next
    case (Method m)
    with assms(1) fn have inv: "invoke L m ?args st = Some st'"
      by (auto simp: Call_def split: option.splits if_splits)
    show ?thesis
    proof (cases "chkOf m ?args")
      case (Some x)
      obtain c obj' d' where x: "x = (c, obj', d')" by (cases x)
      from chkOf_key [of m obj d ps c obj' d'] Some x have "obj' = obj" "d' = d" by auto
      with inv Some x show ?thesis by (auto simp: invoke_def)
    next
      case None
      with inv len show ?thesis
        by (cases m) (auto simp: invoke_def split: list.splits arg.splits)
    qed
  qed
qed



lemma parseFunc_shape:
  assumes "parseFunc fs rx c d key = Inr vf"
  shows "\<exists>fn params ts k. fs (Name vf) = Some fn \<and> NumIn fn = length params + 4
           \<and> trimLoop rx (TypeIn fn) 0 params = Inr ts \<and> Params vf = ts @ [String_p k]"
proof (cases "Index (TrimSpace c) ''('' = - 1")
  case True
  with assms obtain fn where
    "fs (TrimSpace c) = Some fn" "int (NumIn fn) - 4 = 0"
    "vf = \<lparr>Name = TrimSpace c, ErrMsg = d, Params = [String_p (key @ ''.'' @ TrimSpace c)]\<rparr>"
    by (auto simp: parseFunc_def numIn_def Let_def split: if_splits sum.splits option.splits)
  then have "fs (Name vf) = Some fn \<and> NumIn fn = length ([] :: string list) + 4
           \<and> trimLoop rx (TypeIn fn) 0 [] = Inr []
           \<and> Params vf = [] @ [String_p (key @ ''.'' @ TrimSpace c)]"
    by simp
  then show ?thesis by blast
next
  case False
  let ?v = "TrimSpace c"
  let ?name = "TrimSpace (slice ?v 0 (nat (Index ?v ''('')))"
  let ?params = "Split (slice ?v (nat (Index ?v ''('') + 1) (nat (Index ?v '')''))) (CHR '','')"
  from False assms obtain fn ts where
    a: "fs ?name = Some fn" "int (NumIn fn) - 4 = int (length ?params)"
       "trimLoop rx (TypeIn fn) 0 ?params = Inr ts"
       "vf = \<lparr>Name = ?name, ErrMsg = d, Params = ts @ [String_p (key @ ''.'' @ ?name)]\<rparr>"
    by (auto simp: parseFunc_def numIn_def trim_def Let_def
             split: if_splits sum.splits option.splits)
  from a(2) have "NumIn fn = length ?params + 4" by linarith
  with a have "fs (Name vf) = Some fn \<and> NumIn fn = length ?params + 4
           \<and> trimLoop rx (TypeIn fn) 0 ?params = Inr ts
           \<and> Params vf = ts @ [String_p (key @ ''.'' @ ?name)]"
    by simp
  then show ?thesis by blast
qed

lemma trimLoop_one:
  "trimLoop rx ins i [p] = Inr ts \<Longrightarrow>
   i + 2 < length ins \<and> (\<exists>t. ts = [t] \<and> parseParam rx (ins ! (i + 2)) (TrimSpace p) = Inr t)"
  by (auto split: if_splits sum.splits)

lemma trimLoop_two:
  "trimLoop rx ins i [p, q] = Inr ts \<Longrightarrow>
   (\<exists>t u. ts = [t, u] \<and> parseParam rx (ins ! (i + 2)) (TrimSpace p) = Inr t
       \<and> parseParam rx (ins ! (i + 3)) (TrimSpace q) = Inr u)"
  by (auto split: if_splits sum.splits simp: numeral_3_eq_3)

lemma parseParam_Int: "parseParam rx Int_k s = Inr t \<Longrightarrow> \<exists>i. t = Int_p i"
  by (auto simp: parseParam_def split: sum.splits)

lemma parseParam_Regexp: "parseParam rx regexp_k s = Inr t \<Longrightarrow> \<exists>r. t = Regexp_p r"
  by (auto simp: parseParam_def regexp_k_def split: sum.splits if_splits)

lemma parseFunc_resolve:
  assumes "parseFunc fs rx c d key = Inr vf"
  shows "resolve fs vf \<noteq> None"
proof -
  from parseFunc_shape [OF assms] obtain fn params ts k where
    fn: "fs (Name vf) = Some fn" and n: "NumIn fn = length params + 4"
    and t: "trimLoop rx (TypeIn fn) 0 params = Inr ts" and p: "Params vf = ts @ [String_p k]"
    by blast
  show ?thesis
  proof (cases fn)
    case (Custom f)
    with n show ?thesis by (simp add: NumIn_def)
  next
    case (Method m)
    from n Method have l: "length (In m) = length params + 4" by (simp add: NumIn_def)
    have z: "length (In m) = 4 \<Longrightarrow> ts = []"
      using l t by (cases params) auto
    have o: "length (In m) = 5 \<Longrightarrow>
      \<exists>t1. ts = [t1] \<and> (\<exists>s. parseParam rx (In m ! 2) s = Inr t1)"
    proof -
      assume "length (In m) = 5"
      with l obtain p1 where "params = [p1]" by (cases params) auto
      with t Method trimLoop_one [of rx "In m" 0 p1 ts] show ?thesis
        by (auto simp: numeral_2_eq_2)
    qed
    have w: "length (In m) = 6 \<Longrightarrow>
      \<exists>t1 t2. ts = [t1, t2] \<and> (\<exists>s. parseParam rx (In m ! 2) s = Inr t1)
         \<and> (\<exists>s. parseParam rx (In m ! 3) s = Inr t2)"
    proof -
      assume "length (In m) = 6"
      with l obtain p1 p2 where "params = [p1, p2]"
        by (cases params; cases "tl params") auto
      with t Method trimLoop_two [of rx "In m" 0 p1 p2 ts] show ?thesis
        by (auto simp: numeral_2_eq_2 numeral_3_eq_3)
    qed
    show ?thesis
      using fn Method p l z o w
      by (cases m)
         (auto simp: resolve_def chkOf_def args0_def args1_def args2_def argsRe_def
               mergeParam_def dest!: parseParam_Int parseParam_Regexp)
  qed
qed

lemma compiled_resolve:
  assumes "getValidFuncs fs rx f = Inr vfs" "fs ''Match'' = Some (Method Match_m)"
    "vf \<in> set vfs"
  shows "resolve fs vf \<noteq> None"
proof (cases "TrimSpace (validTag f) = []")
  case True
  with assms show ?thesis by (simp add: getValidFuncs_def)
next
  case False
  with assms(1) obtain m tag' desc' where
    g: "getRegFuncs rx (TrimSpace (validTag f)) (TrimSpace (vdescTag f)) (FieldName f)
          = Inr (m, tag', desc')"
    by (auto simp: getValidFuncs_def Let_def split: sum.splits)
  from assms(1) False g obtain d fsDesc isArr where
    c: "clauseLoop fs rx (FieldName f) d fsDesc isArr 0 (Split tag' (CHR '';'')) m = Inr vfs"
    by (auto simp: getValidFuncs_def Let_def)
  from clauseLoop_order [OF c] obtain rest where
    r: "vfs = m @ rest"
       "list_all2 (\<lambda>c vf. \<exists>dd. parseFunc fs rx c dd (FieldName f) = Inr vf)
          (filter (\<lambda>c. c \<noteq> []) (Split tag' (CHR '';''))) rest"
    by blast
  from assms(3) r(1) consider "vf \<in> set m" | "vf \<in> set rest" by auto
  then show ?thesis
  proof cases
    case 1
    with g assms(2) show ?thesis
      by (auto simp: getRegFuncs_def Let_def Compile_def resolve_def chkOf_def argsRe_def
               mergeParam_def split: if_splits prod.splits)
  next
    case 2
    from list_all2_set2 [OF r(2) 2] obtain cl dd where
      "parseFunc fs rx cl dd (FieldName f) = Inr vf" by blast
    then show ?thesis by (rule parseFunc_resolve)
  qed
qed

lemma ruleLoop_all:
  assumes "Errors v = []" "val \<noteq> None" "\<forall>vf \<in> set vfs. holds L fs (val, vf)"
  shows "ruleLoop L fs (Inr val) vfs (h, v) = (None, (h, v), vfs)"
  using assms(3)
proof (induction vfs)
  case Nil
  then show ?case by simp
next
  case (Cons vf vfs)
  from Cons.prems obtain c where c: "resolve fs vf = Some c" "IsSatisfied L c val"
    by (auto simp: holds_def split: option.splits)
  from Call_resolve [OF c(1) assms(2), of L "(h, v)"] c(2)
  have "Call L fs (Name vf) (mergeParam val (ErrMsg vf) (Params vf)) (h, v) = (None, (h, v))"
    by (simp add: apply_satisfied)
  with Cons assms(1) show ?case by (simp add: HasErrors_def)
qed

lemma ruleLoop_first:
  assumes "Errors v = []" "val \<noteq> None"
    and "\<forall>x \<in> set before. holds L fs (val, x)"
    and "resolve fs vf = Some c" "\<not> IsSatisfied L c val"
  shows "ruleLoop L fs (Inr val) (before @ vf # after) (h, v)
     = (Some (ErrorMessage (if TrimSpace (ErrMsg vf) = [] then DefaultMessage L c
                            else ErrMsg vf)),
        snd (Validation_apply L c val (ErrMsg vf) (h, v)), before @ [vf])"
  using assms(3)
proof (induction before)
  case Nil
  from Call_resolve [OF assms(4) assms(2), of L "(h, v)"]
  have "Call L fs (Name vf) (mergeParam val (ErrMsg vf) (Params vf)) (h, v)
     = (None, snd (Validation_apply L c val (ErrMsg vf) (h, v)))" .
  moreover have "snd (Validation_apply L c val (ErrMsg vf) (h, v))
     = (h @ [applyError L c val (ErrMsg vf)],
        snd (setError (length h) (h @ [applyError L c val (ErrMsg vf)], v)))"
    by (simp add: apply_failing [OF assms(5)] setError_def Let_def)
  moreover have "Errors (snd (setError (length h) (h @ [applyError L c val (ErrMsg vf)], v)))
     = [length h]"
    by (simp add: setError_Errors assms(1))
  ultimately show ?case
    by (simp add: HasErrors_def applyError_simps)
next
  case (Cons x before)
  from Cons.prems obtain cx where c: "resolve fs x = Some cx" "IsSatisfied L cx val"
    by (auto simp: holds_def split: option.splits)
  from Call_resolve [OF c(1) assms(2), of L "(h, v)"] c(2)
  have "Call L fs (Name x) (mergeParam val (ErrMsg x) (Params x)) (h, v) = (None, (h, v))"
    by (simp add: apply_satisfied)
  with Cons assms(1) show ?case by (simp add: HasErrors_def)
qed

lemma split_first_failure:
  assumes "xs @ ys = b @ x # a" "\<forall>z \<in> set b. P z" "\<not> P x"
  shows "((\<forall>z \<in> set xs. P z) \<and> (\<exists>b'. b = xs @ b' \<and> ys = b' @ x # a))
       \<or> (\<exists>a1. xs = b @ x # a1)"
  using assms
proof (induction xs arbitrary: b)
  case Nil
  then show ?case by simp
next
  case (Cons y xs)
  show ?case
  proof (cases b)
    case Nil
    with Cons.prems show ?thesis by auto
  next
    case (Cons z b')
    with Cons.prems have "xs @ ys = b' @ x # a" "\<forall>z \<in> set b'. P z" "y = z" "P y"
      by auto
    from Cons.IH [OF this(1,2) Cons.prems(3)] this(3,4) Cons show ?thesis by auto
  qed
qed


lemma rulesOf_Cons:
  "getValidFuncs fs rx f = Inr vfs \<Longrightarrow>
   rulesOf fs rx ((f, x) # rest) = map (Pair x) vfs @ rulesOf fs rx rest"
  by (simp add: rulesOf_def)

lemma map_Pair_eq:
  "map (Pair x) vfs = before @ (val, vf) # a1 \<Longrightarrow>
   val = x \<and> vfs = map snd before @ vf # map snd a1 \<and> (\<forall>r \<in> set before. fst r = x)"
proof (induction vfs arbitrary: before)
  case Nil
  then show ?case by simp
next
  case (Cons y ys)
  show ?case
  proof (cases before)
    case Nil
    with Cons.prems have "val = x" "vf = y" "map (Pair x) ys = a1" by auto
    with Nil show ?thesis by (auto simp: comp_def)
  next
    case (Cons b bs)
    with Cons.prems have b: "b = (x, y)" and r: "map (Pair x) ys = bs @ (val, vf) # a1"
      by auto
    from Cons.IH [OF r] b Cons show ?thesis by simp
  qed
qed

lemma fieldLoop_all:
  assumes "Errors v = []"
    and "\<forall>(f, val) \<in> set fl. \<exists>vfs. getValidFuncs fs rx f = Inr vfs"
    and "\<forall>(val, vf) \<in> set (rulesOf fs rx fl). val \<noteq> None"
    and "\<forall>r \<in> set (rulesOf fs rx fl). holds L fs r"
    and "\<forall>(f, val) \<in> set fl. getValidFuncs fs rx f = Inr [] \<or> IsExported f"
  shows "fieldLoop L fs rx True fl (h, v) = (None, (h, v), map snd (rulesOf fs rx fl))"
  using assms(2-5)
proof (induction fl)
  case Nil
  then show ?case by (simp add: rulesOf_def)
next
  case (Cons fx rest)
  obtain f x where fx: "fx = (f, x)" by (cases fx)
  from Cons.prems(1) fx obtain vfs where g: "getValidFuncs fs rx f = Inr vfs" by auto
  note r = rulesOf_Cons [OF g, of x rest]
  have rl: "ruleLoop L fs (FieldInterface True f x) vfs (h, v) = (None, (h, v), vfs)"
  proof (cases vfs)
    case Nil
    then show ?thesis by simp
  next
    case (Cons a list)
    with Cons.prems(4) g fx have "FieldInterface True f x = Inr x"
      by (simp add: FieldInterface_def)
    moreover from Cons Cons.prems(2) have "x \<noteq> None" unfolding fx r by simp
    moreover from Cons.prems(3) have "\<forall>vf \<in> set vfs. holds L fs (x, vf)"
      unfolding fx r by simp
    ultimately show ?thesis by (simp add: ruleLoop_all [OF assms(1)])
  qed
  have p1: "\<forall>(f, val) \<in> set rest. \<exists>vfs. getValidFuncs fs rx f = Inr vfs"
    using Cons.prems(1) by simp
  have p2: "\<forall>(val, vf) \<in> set (rulesOf fs rx rest). val \<noteq> None"
    using Cons.prems(2) unfolding fx r by simp
  have p3: "\<forall>r \<in> set (rulesOf fs rx rest). holds L fs r"
    using Cons.prems(3) unfolding fx r by simp
  have p4: "\<forall>(f, val) \<in> set rest. getValidFuncs fs rx f = Inr [] \<or> IsExported f"
    using Cons.prems(4) by simp
  from Cons.IH [OF p1 p2 p3 p4]
  have "fieldLoop L fs rx True rest (h, v) = (None, (h, v), map snd (rulesOf fs rx rest))" .
  with g rl fx r show ?case by (simp add: comp_def)
qed

lemma fieldLoop_first:
  assumes "Errors v = []"
    and "\<forall>(f, val) \<in> set fl. \<exists>vfs. getValidFuncs fs rx f = Inr vfs"
    and "\<forall>(val, vf) \<in> set (rulesOf fs rx fl). val \<noteq> None"
    and "rulesOf fs rx fl = before @ (val, vf) # after"
    and "\<forall>r \<in> set before. holds L fs r"
    and "resolve fs vf = Some c" "\<not> IsSatisfied L c val"
    and "\<forall>(f, val) \<in> set fl. getValidFuncs fs rx f = Inr [] \<or> IsExported f"
  shows "fieldLoop L fs rx True fl (h, v)
     = (Some (ErrorMessage (if TrimSpace (ErrMsg vf) = [] then DefaultMessage L c
                            else ErrMsg vf)),
        snd (Validation_apply L c val (ErrMsg vf) (h, v)), map snd before @ [vf])"
  using assms(2-5) assms(8)
proof (induction fl arbitrary: before)
  case Nil
  then show ?case by (simp add: rulesOf_def)
next
  case (Cons fx rest)
  obtain f x where fx: "fx = (f, x)" by (cases fx)
  from Cons.prems(1) fx obtain vfs where g: "getValidFuncs fs rx f = Inr vfs" by auto
  note r = rulesOf_Cons [OF g, of x rest]
  have nh: "\<not> holds L fs (val, vf)" using assms(6,7) by (simp add: holds_def)
  from Cons.prems(3) fx r
  have eq: "map (Pair x) vfs @ rulesOf fs rx rest = before @ (val, vf) # after" by simp
  from split_first_failure [OF eq Cons.prems(4) nh]
  consider (later) b' where "\<forall>z \<in> set (map (Pair x) vfs). holds L fs z"
      "before = map (Pair x) vfs @ b'" "rulesOf fs rx rest = b' @ (val, vf) # after"
    | (here) a1 where "map (Pair x) vfs = before @ (val, vf) # a1"
    by blast
  then show ?case
  proof cases
    case later
    have rl: "ruleLoop L fs (FieldInterface True f x) vfs (h, v) = (None, (h, v), vfs)"
    proof (cases vfs)
      case Nil
      then show ?thesis by simp
    next
      case (Cons a list)
      with Cons.prems(5) g fx have "FieldInterface True f x = Inr x"
        by (simp add: FieldInterface_def)
      moreover from Cons Cons.prems(2) have "x \<noteq> None" unfolding fx r by simp
      moreover from later(1) have "\<forall>vf \<in> set vfs. holds L fs (x, vf)" by simp
      ultimately show ?thesis by (simp add: ruleLoop_all [OF assms(1)])
    qed
    have p1: "\<forall>(f, val) \<in> set rest. \<exists>vfs. getValidFuncs fs rx f = Inr vfs"
      using Cons.prems(1) by simp
    have p2: "\<forall>(val, vf) \<in> set (rulesOf fs rx rest). val \<noteq> None"
      using Cons.prems(2) unfolding fx r by simp
    have p4: "\<forall>r \<in> set b'. holds L fs r"
      using Cons.prems(4) later(2) by simp
    have p5: "\<forall>(f, val) \<in> set rest. getValidFuncs fs rx f = Inr [] \<or> IsExported f"
      using Cons.prems(5) by simp
    from Cons.IH [OF p1 p2 later(3) p4 p5]
    have "fieldLoop L fs rx True rest (h, v)
     = (Some (ErrorMessage (if TrimSpace (ErrMsg vf) = [] then DefaultMessage L c
                            else ErrMsg vf)),
        snd (Validation_apply L c val (ErrMsg vf) (h, v)), map snd b' @ [vf])" .
    with g rl fx later(2) show ?thesis by (simp add: comp_def)
  next
    case here
    from map_Pair_eq [OF here] have
      v: "val = x" and vs: "vfs = map snd before @ vf # map snd a1"
      and b: "\<forall>r \<in> set before. fst r = x" by auto
    from Cons.prems(2) vs have xn: "x \<noteq> None" unfolding fx r by simp
    from Cons.prems(5) g fx vs have fi: "FieldInterface True f x = Inr x"
      by (simp add: FieldInterface_def)
    have "\<forall>y \<in> set (map snd before). holds L fs (x, y)"
    proof
      fix y assume "y \<in> set (map snd before)"
      then obtain r where r: "r \<in> set before" "y = snd r" by auto
      with b have "r = (x, y)" by (cases r) auto
      with Cons.prems(4) r(1) show "holds L fs (x, y)" by auto
    qed
    from ruleLoop_first [OF assms(1) xn this assms(6), of "map snd a1" h] assms(7) v vs fi
    have "ruleLoop L fs (FieldInterface True f x) vfs (h, v)
     = (Some (ErrorMessage (if TrimSpace (ErrMsg vf) = [] then DefaultMessage L c
                            else ErrMsg vf)),
        snd (Validation_apply L c val (ErrMsg vf) (h, v)), map snd before @ [vf])"
      by simp
    with g fx show ?thesis by simp
  qed
qed


lemma rulesOf_resolve:
  assumes "\<forall>(f, val) \<in> set fl. \<exists>vfs. getValidFuncs fs rx f = Inr vfs"
    and "fs ''Match'' = Some (Method Match_m)"
  shows "\<forall>r \<in> set (rulesOf fs rx fl). resolve fs (snd r) \<noteq> None"
proof
  fix r assume "r \<in> set (rulesOf fs rx fl)"
  then obtain f val where fv: "(f, val) \<in> set fl"
    and r: "r \<in> set (case getValidFuncs fs rx f of Inr vfs \<Rightarrow> map (Pair val) vfs | Inl e \<Rightarrow> [])"
    by (auto simp: rulesOf_def)
  from assms(1) fv obtain vfs where g: "getValidFuncs fs rx f = Inr vfs" by auto
  with r have "snd r \<in> set vfs" by auto
  from compiled_resolve [OF g assms(2) this] show "resolve fs (snd r) \<noteq> None" .
qed





section \<open>Registration\<close>

lemma init_dom:
  "dom (init :: 'f Funcs) =
     {''Alpha'', ''AlphaDash'', ''AlphaNumeric'', ''Base64'', ''Email'', ''IP'', ''Length'',
      ''Match'', ''Max'', ''MaxSize'', ''Min'', ''MinSize'', ''Mobile'', ''Numeric'', ''Phone'',
      ''Range'', ''Required'', ''SetError'', ''Tel'', ''ZipCode''}"
  unfolding init_def methods_def unfolding unFuncs_def by (simp add: insert_commute)

text \<open>
  C3, as the code has it. \<open>AddCustomFunc(name, fn)\<close> fails exactly when \<open>name\<close> is a key
  of \<open>unFuncs\<close>: \<open>Clear\<close>, \<open>HasErrors\<close>, \<open>ErrorMap\<close>, \<open>Error\<close>, \<open>apply\<close>, \<open>Check\<close>,
  \<open>Valid\<close> or \<open>NoMatch\<close>, and then it leaves \<open>funcs\<close> as it is. For every other name it
  returns nil and \<open>funcs\<close> holds the new function under that name, whatever was there
  before; the other names keep their entries.
\<close>

theorem AddCustomFunc_reserved_names:
  "((fst (AddCustomFunc fs name f) \<noteq> None) =
      (name \<in> {''Clear'', ''HasErrors'', ''ErrorMap'', ''Error'', ''apply'', ''Check'',
                ''Valid'', ''NoMatch''}))
   \<and> (fst (AddCustomFunc fs name f) \<noteq> None \<longrightarrow>
        fst (AddCustomFunc fs name f) = Some (InvalidFunctionName name)
        \<and> snd (AddCustomFunc fs name f) = fs)
   \<and> (fst (AddCustomFunc fs name f) = None \<longrightarrow>
        snd (AddCustomFunc fs name f) name = Some (Custom f)
        \<and> (\<forall>other. other \<noteq> name \<longrightarrow> snd (AddCustomFunc fs name f) other = fs other))"
  by (simp add: AddCustomFunc_def unFuncs_def)

text \<open>
  At a name that is registered already: \<open>Required\<close> is replaced by the custom function,
  and \<open>Min\<close> keeps its method.
\<close>

theorem AddCustomFunc_reserved_names_witness:
  "fst (AddCustomFunc (init :: unit Funcs) ''Required'' ()) = None
   \<and> init ''Required'' = Some (Method Required_m :: unit entry)
   \<and> snd (AddCustomFunc (init :: unit Funcs) ''Required'' ()) ''Required'' = Some (Custom ())
   \<and> snd (AddCustomFunc (init :: unit Funcs) ''Required'' ()) ''Min'' = Some (Method Min_m)"
proof -
  have r: "init ''Required'' = Some (Method Required_m :: unit entry)"
    unfolding init_def methods_def unfolding unFuncs_def by simp
  have m: "init ''Min'' = Some (Method Min_m :: unit entry)"
    unfolding init_def methods_def unfolding unFuncs_def by simp
  have n: "fst (AddCustomFunc (init :: unit Funcs) ''Required'' ()) = None"
    by (simp add: AddCustomFunc_def unFuncs_def)
  from AddCustomFunc_reserved_names [of "init :: unit Funcs" "''Required''" "()"] n
  have "snd (AddCustomFunc (init :: unit Funcs) ''Required'' ()) ''Required'' = Some (Custom ())
        \<and> snd (AddCustomFunc (init :: unit Funcs) ''Required'' ()) ''Min'' = init ''Min''"
    by simp
  with r m n show ?thesis by simp
qed

text \<open>
  The claim lists \<open>Clear\<close>, \<open>HasErrors\<close>, \<open>ErrorMap\<close>, \<open>Error\<close>, \<open>Valid\<close> and the apply and
  check helpers as the names that fail. \<open>NoMatch\<close> is none of them, and it fails too.
\<close>

theorem AddCustomFunc_NoMatch_rejected:
  "fst (AddCustomFunc (init :: unit Funcs) ''NoMatch'' ()) = Some (InvalidFunctionName ''NoMatch'')
   \<and> ''NoMatch'' \<notin> {''Clear'', ''HasErrors'', ''ErrorMap'', ''Error'', ''Valid'', ''apply'',
                     ''Check''}"
  by (simp add: AddCustomFunc_def unFuncs_def)

section \<open>Arity of the built-in rules\<close>

lemma init_arity:
  "\<forall>(name, k) \<in> set catalog. name \<noteq> ''NoMatch'' \<longrightarrow> numIn (init :: 'f Funcs) name = Inr k"
  unfolding catalog_def numIn_def init_def methods_def unfolding unFuncs_def
  by (simp add: NumIn_def recv_k_def obj_k_def regexp_k_def)

lemma init_NoMatch: "numIn (init :: 'f Funcs) ''NoMatch'' = Inl (NoValidFunction ''NoMatch'')"
  unfolding numIn_def init_def methods_def unfolding unFuncs_def by simp

lemma parseFunc_bare:
  assumes "TrimSpace c = n" "CHR ''('' \<notin> set n" "numIn fs n = Inr k" "k \<noteq> 0"
  shows "parseFunc fs rx c d key = Inl (RequireParameters n k)"
  using assms by (simp add: parseFunc_def Index_notin)

lemma parseFunc_paren:
  assumes "TrimSpace c = n @ ''('' @ body @ '')'' @ rest"
    and "CHR ''('' \<notin> set n" "CHR '')'' \<notin> set n" "CHR '')'' \<notin> set body"
    and "numIn fs (TrimSpace n) = Inr k" "k \<noteq> int (length (Split body (CHR '','')))"
  shows "parseFunc fs rx c d key = Inl (RequireParameters (TrimSpace n) k)"
proof -
  let ?v = "n @ ''('' @ body @ '')'' @ rest"
  have s: "Index ?v ''('' = int (length n)"
    using Index_first [OF assms(2)] by simp
  have "CHR '')'' \<notin> set (n @ ''('' @ body)" using assms(3,4) by simp
  from Index_first [OF this, of rest]
  have e: "Index ?v '')'' = int (length n + 1 + length body)" by simp
  have n: "slice ?v 0 (length n) = n" by (simp add: slice_def)
  have b: "slice ?v (Suc (length n)) (Suc (length n + length body)) = body"
    by (simp add: slice_def)
  show ?thesis
    using assms(1,5,6) s e n b by (simp add: parseFunc_def Let_def nat_add_distrib)
qed

text \<open>
  C4, as the code has it. Every rule of the catalog but \<open>NoMatch\<close> is in \<open>funcs\<close> at
  start-up, and \<open>numIn\<close> gives its documented number of parameters; \<open>NoMatch\<close> is not
  registered (\<open>unFuncs\<close> holds its name), so a \<open>NoMatch\<close> clause does not compile.
  For any registry, a clause whose argument count differs from what \<open>numIn\<close> gives for
  its name fails with the parameter-count error: a bare name \<open>n\<close> (no parenthesis)
  counts zero arguments, and \<open>n(body)rest\<close> counts the pieces of \<open>body\<close> between commas
  (so \<open>n()\<close> counts one, empty, argument).
\<close>

theorem builtin_arity_and_count_check:
  "(\<forall>(name, k) \<in> set catalog. name \<noteq> ''NoMatch'' \<longrightarrow> numIn (init :: 'f Funcs) name = Inr k)
   \<and> numIn (init :: 'f Funcs) ''NoMatch'' = Inl (NoValidFunction ''NoMatch'')
   \<and> (\<forall>n k. TrimSpace c = n \<and> CHR ''('' \<notin> set n \<and> numIn fs n = Inr k \<and> k \<noteq> 0
         \<longrightarrow> parseFunc fs rx c d key = Inl (RequireParameters n k))
   \<and> (\<forall>n body rest k.
         TrimSpace c = n @ ''('' @ body @ '')'' @ rest
         \<and> CHR ''('' \<notin> set n \<and> CHR '')'' \<notin> set n \<and> CHR '')'' \<notin> set body
         \<and> numIn fs (TrimSpace n) = Inr k \<and> k \<noteq> int (length (Split body (CHR '','')))
         \<longrightarrow> parseFunc fs rx c d key = Inl (RequireParameters (TrimSpace n) k))"
proof (intro conjI allI impI)
  show "\<forall>(name, k) \<in> set catalog. name \<noteq> ''NoMatch'' \<longrightarrow> numIn (init :: 'f Funcs) name = Inr k"
    by (rule init_arity)
next
  show "numIn (init :: 'f Funcs) ''NoMatch'' = Inl (NoValidFunction ''NoMatch'')"
    by (rule init_NoMatch)
next
  fix n k
  assume "TrimSpace c = n \<and> CHR ''('' \<notin> set n \<and> numIn fs n = Inr k \<and> k \<noteq> 0"
  then show "parseFunc fs rx c d key = Inl (RequireParameters n k)"
    using parseFunc_bare by blast
next
  fix n body rest k
  assume "TrimSpace c = n @ ''('' @ body @ '')'' @ rest
         \<and> CHR ''('' \<notin> set n \<and> CHR '')'' \<notin> set n \<and> CHR '')'' \<notin> set body
         \<and> numIn fs (TrimSpace n) = Inr k \<and> k \<noteq> int (length (Split body (CHR '','')))"
  then show "parseFunc fs rx c d key = Inl (RequireParameters (TrimSpace n) k)"
    using parseFunc_paren by blast
qed

text \<open>
  On the start-up registry: \<open>Range\<close> has two parameters, the clause \<open>Min(1, 2)\<close> gives
  one argument too many and the bare clause \<open>Range\<close> gives none.
\<close>

theorem builtin_arity_and_count_check_witness:
  "numIn (init :: unit Funcs) ''Range'' = Inr 2
   \<and> parseFunc (init :: unit Funcs) (\<lambda>p. True) ''Min(1, 2)'' [] ''Amount''
       = Inl (RequireParameters ''Min'' 1)
   \<and> parseFunc (init :: unit Funcs) (\<lambda>p. True) ''Range'' [] ''Amount''
       = Inl (RequireParameters ''Range'' 2)"
proof -
  have sp: "isSpace1 (CHR ''M'') = False" "isSpace1 (CHR '')'') = False"
    "isSpace1 (CHR ''R'') = False" "isSpace1 (CHR ''e'') = False"
    "isSpace1 (CHR ''n'') = False"
    "isSpace2 (CHR ''M'') b = False" "isSpace2 b (CHR '')'') = False"
    "isSpace2 (CHR ''R'') b = False" "isSpace2 b (CHR ''e'') = False"
    "isSpace2 b (CHR ''n'') = False" "isSpace2 (CHR ''i'') b = False"
    "isSpace3 (CHR ''M'') b c = False" "isSpace3 a b (CHR '')'') = False"
    "isSpace3 (CHR ''R'') b c = False" "isSpace3 a b (CHR ''e'') = False"
    "isSpace3 a b (CHR ''n'') = False" "isSpace3 (CHR ''i'') b c = False"
    for a b c
    by (simp_all add: isSpace1_def isSpace2_def isSpace3_def)
  have t1: "TrimSpace ''Min(1, 2)'' = ''Min'' @ ''('' @ ''1, 2'' @ '')'' @ []"
    by (simp add: TrimSpace_def sp)
  have t2: "TrimSpace ''Range'' = ''Range''"
    by (simp add: TrimSpace_def sp)
  have t3: "TrimSpace ''Min'' = ''Min''"
    by (simp add: TrimSpace_def sp)
  have a1: "numIn (init :: unit Funcs) ''Min'' = Inr 1"
    using init_arity [where 'f = unit] by (simp add: catalog_def)
  have a2: "numIn (init :: unit Funcs) ''Range'' = Inr 2"
    using init_arity [where 'f = unit] by (simp add: catalog_def)
  note th = builtin_arity_and_count_check
  have "parseFunc (init :: unit Funcs) (\<lambda>p. True) ''Min(1, 2)'' [] ''Amount''
       = Inl (RequireParameters (TrimSpace ''Min'') 1)"
    using th [of "''Min(1, 2)''" "init :: unit Funcs" "\<lambda>p. True" "[]" "''Amount''",
        THEN conjunct2, THEN conjunct2, THEN conjunct2, rule_format,
        of "''Min''" "''1, 2''" "[]" 1] t1 t3 a1
    by simp
  moreover have "parseFunc (init :: unit Funcs) (\<lambda>p. True) ''Range'' [] ''Amount''
       = Inl (RequireParameters ''Range'' 2)"
    using th [of "''Range''" "init :: unit Funcs" "\<lambda>p. True" "[]" "''Amount''",
        THEN conjunct2, THEN conjunct2, THEN conjunct1, rule_format,
        of "''Range''" 2] t2 a2
    by simp
  ultimately show ?thesis using a2 t3 by simp
qed

text \<open>
  The claim has \<open>NoMatch\<close> in the catalog of rules registered at start-up. It is a
  method of the context, and \<open>init\<close> leaves it out.
\<close>

theorem NoMatch_not_registered:
  "(''NoMatch'', 1) \<in> set catalog
   \<and> (init :: unit Funcs) ''NoMatch'' = None
   \<and> numIn (init :: unit Funcs) ''NoMatch'' = Inl (NoValidFunction ''NoMatch'')"
  unfolding catalog_def numIn_def init_def methods_def unfolding unFuncs_def by simp

section \<open>The regex extraction pass\<close>

text \<open>
  What the pass does when the last \<open>"/)"\<close> starts after the end of the first
  \<open>"Match(/"\<close>: the annotation is the text before, \<open>Match(/\<close>, the pattern, \<open>/)\<close> and the
  text after; the pattern is compiled as it stands, and the annotation that goes on to
  the split on \<open>';'\<close> is the text before and the text after, each trimmed. When no
  \<open>"/)"\<close> starts at or after the first \<open>"Match(/"\<close>, the pass fails.
\<close>

lemma getRegFuncs_captures:
  assumes "occursAt tag ''Match(/'' i" "\<forall>j < i. \<not> occursAt tag ''Match(/'' j"
    and "occursAt tag ''/)'' e" "\<forall>j > e. \<not> occursAt tag ''/)'' j"
    and "i + 7 \<le> e"
  shows "tag = take i tag @ ''Match(/'' @ slice tag (i + 7) e @ ''/)'' @ drop (e + 2) tag"
    and "\<not> rx (slice tag (i + 7) e) \<Longrightarrow>
         getRegFuncs rx tag d key = Inl (RegexpError (slice tag (i + 7) e))"
    and "rx (slice tag (i + 7) e) \<Longrightarrow>
         \<exists>dm dn. getRegFuncs rx tag d key
           = Inr ([\<lparr>Name = ''Match'', ErrMsg = dm,
                    Params = [Regexp_p (Regexp (slice tag (i + 7) e)),
                              String_p (key @ ''.Match'')]\<rparr>],
                  TrimSpace (take i tag) @ TrimSpace (drop (e + 2) tag), dn)"
proof -
  have l: "length ''Match(/'' = 7" "length ''/)'' = 2" by simp_all
  from assms(5) have "i + length ''Match(/'' \<le> e" by (simp only: l)
  from occurs_between [OF assms(1,3) this]
  show "tag = take i tag @ ''Match(/'' @ slice tag (i + 7) e @ ''/)'' @ drop (e + 2) tag"
    by (simp only: l)
  have ix: "Index tag ''Match(/'' = int i" by (rule Index_eq [OF assms(1,2)])
  have lx: "LastIndex tag ''/)'' = int e" by (rule LastIndex_eq [OF assms(3,4)])
  show "\<not> rx (slice tag (i + 7) e) \<Longrightarrow>
         getRegFuncs rx tag d key = Inl (RegexpError (slice tag (i + 7) e))"
    using assms(5) by (simp add: getRegFuncs_def ix lx Compile_def)
  show "rx (slice tag (i + 7) e) \<Longrightarrow>
         \<exists>dm dn. getRegFuncs rx tag d key
           = Inr ([\<lparr>Name = ''Match'', ErrMsg = dm,
                    Params = [Regexp_p (Regexp (slice tag (i + 7) e)),
                              String_p (key @ ''.Match'')]\<rparr>],
                  TrimSpace (take i tag) @ TrimSpace (drop (e + 2) tag), dn)"
    using assms(5)
    by (simp add: getRegFuncs_def ix lx Compile_def slice_def Let_def split: prod.splits)
qed

lemma getRegFuncs_close_before_open:
  assumes "occursAt tag ''Match(/'' i" "\<forall>j < i. \<not> occursAt tag ''Match(/'' j"
    and "\<forall>j \<ge> i. \<not> occursAt tag ''/)'' j"
  shows "getRegFuncs rx tag d key = Inl InvalidMatchFunction"
proof -
  have ix: "Index tag ''Match(/'' = int i" by (rule Index_eq [OF assms(1,2)])
  have "LastIndex tag ''/)'' < int i"
  proof (cases "LastIndex tag ''/)'' = - 1")
    case True
    then show ?thesis by simp
  next
    case False
    with LastIndex_cases [of tag "''/)''"] obtain e where e: "LastIndex tag ''/)'' = int e"
      by auto
    from LastIndex_found [OF e] assms(3) have "e < i" by (meson not_le)
    with e show ?thesis by simp
  qed
  with ix show ?thesis by (simp add: getRegFuncs_def)
qed

text \<open>
  C5 at the annotation \<open>Match(/)\<close>. The first \<open>"Match(/"\<close> is at index 0 and the last
  \<open>"/)"\<close> at index 6, inside it: \<open>end < index\<close> does not hold, and the slice
  \<open>tag[7:6]\<close> panics. Neither \<open>getRegFuncs\<close> nor \<open>getValidFuncs\<close> nor \<open>Valid\<close> recovers:
  no pattern is captured and no compile error is returned, the panic reaches the caller
  of \<open>Valid\<close> before any rule has run.
\<close>

theorem getRegFuncs_overlap_panics:
  "getRegFuncs rx ''Match(/)'' d key = Inl (Panic ''slice bounds out of range'')
   \<and> getValidFuncs fs rx \<lparr>FieldName = key, PkgPath = pkg, validTag = ''Match(/)'', vdescTag = d\<rparr>
       = Inl (Panic ''slice bounds out of range'')
   \<and> Valid L fs rx st
        (Struct ((\<lparr>FieldName = key, PkgPath = pkg, validTag = ''Match(/)'', vdescTag = d\<rparr>, val) # rest))
       = (Some (Panic ''slice bounds out of range''), st, [])"
proof -
  have r: "getRegFuncs rx ''Match(/)'' d' key = Inl (Panic ''slice bounds out of range'')" for d'
    by (simp add: getRegFuncs_def LastIndex_def)
  have v: "getValidFuncs fs rx \<lparr>FieldName = key, PkgPath = pkg, validTag = ''Match(/)'', vdescTag = d\<rparr>
       = Inl (Panic ''slice bounds out of range'')"
    by (simp add: getValidFuncs_def r trim_defs)
  show ?thesis using r v by (simp add: Valid_def)
qed

section \<open>Descriptions of the clauses\<close>

text \<open>
  What holds of an annotation without \<open>"Match(/"\<close>: the descriptors are those of its
  non-empty clauses, and the clause with index \<open>i\<close> (empty clauses are counted) is
  compiled with the description \<open>descAt d i\<close>, where \<open>d\<close> is the trimmed description string.
\<close>

lemma descriptions_without_Match:
  assumes "Index (TrimSpace (validTag f)) ''Match(/'' = - 1"
    and "getValidFuncs fs rx f = Inr vfs"
  shows "list_all2 (\<lambda>(i, c) vf.
            ErrMsg vf = descAt (TrimSpace (vdescTag f)) i
            \<and> parseFunc fs rx c (descAt (TrimSpace (vdescTag f)) i) (FieldName f) = Inr vf)
          (filter (\<lambda>(i, c). c \<noteq> []) (enumerate 0 (Split (TrimSpace (validTag f)) (CHR '';''))))
          vfs"
proof (cases "TrimSpace (validTag f) = []")
  case True
  with assms(2) show ?thesis by (simp add: getValidFuncs_def)
next
  case False
  let ?d = "TrimSpace (vdescTag f)"
  let ?isArr = "0 \<le> Index ?d '';''"
  let ?fsDesc = "if ?isArr then Split ?d (CHR '';'') else []"
  from assms False have
    "clauseLoop fs rx (FieldName f) ?d ?fsDesc ?isArr 0 (Split (TrimSpace (validTag f)) (CHR '';'')) []
       = Inr vfs"
    by (simp add: getValidFuncs_def getRegFuncs_def Let_def)
  from clauseLoop_descs [OF this]
  have "list_all2 (\<lambda>(i, c) vf.
           parseFunc fs rx c (if \<not> ?isArr then ?d
                              else if i < length ?fsDesc then ?fsDesc ! i else []) (FieldName f)
             = Inr vf)
          (filter (\<lambda>(i, c). c \<noteq> []) (enumerate 0 (Split (TrimSpace (validTag f)) (CHR '';''))))
          vfs"
    by simp
  moreover have "(if \<not> ?isArr then ?d else if i < length ?fsDesc then ?fsDesc ! i else [])
      = descAt ?d i" for i
    by (simp add: descAt_def not_le)
  ultimately have "list_all2 (\<lambda>(i, c) vf.
           parseFunc fs rx c (descAt ?d i) (FieldName f) = Inr vf)
          (filter (\<lambda>(i, c). c \<noteq> []) (enumerate 0 (Split (TrimSpace (validTag f)) (CHR '';''))))
          vfs"
    by simp
  then show ?thesis
    by (rule list_all2_mono) (auto dest: parseFunc_ErrMsg)
qed

text \<open>
  C6 at two annotations with a \<open>Match(/.../)\<close> clause. With the one description
  \<open>d1\<close> for \<open>Required;Match(/a/)\<close>, \<open>getRegFuncs\<close> gives \<open>d1\<close> to \<open>Match\<close> and returns the
  empty \<open>newErrDescTag\<close>: \<open>Required\<close> is compiled with the empty description. With
  \<open>d1;d2;d3\<close> for \<open>Required;Match(/a/);Min(1)\<close>, the remaining descriptions are \<open>d1;d3\<close>
  but the remaining annotation is \<open>Required;;Min(1)\<close>, where \<open>Min(1)\<close> still has index 2:
  \<open>Min\<close> is compiled with the empty description, not with \<open>d3\<close>.
\<close>

theorem descriptions_lost_beside_Match:
  "getValidFuncs (init :: unit Funcs) (\<lambda>p. True)
     \<lparr>FieldName = ''F'', PkgPath = [], validTag = ''Required;Match(/a/)'', vdescTag = ''d1''\<rparr>
   = Inr [\<lparr>Name = ''Match'', ErrMsg = ''d1'',
            Params = [Regexp_p (Regexp ''a''), String_p ''F.Match'']\<rparr>,
          \<lparr>Name = ''Required'', ErrMsg = [], Params = [String_p ''F.Required'']\<rparr>]
   \<and> getValidFuncs (init :: unit Funcs) (\<lambda>p. True)
     \<lparr>FieldName = ''F'', PkgPath = [], validTag = ''Required;Match(/a/);Min(1)'', vdescTag = ''d1;d2;d3''\<rparr>
   = Inr [\<lparr>Name = ''Match'', ErrMsg = ''d2'',
            Params = [Regexp_p (Regexp ''a''), String_p ''F.Match'']\<rparr>,
          \<lparr>Name = ''Required'', ErrMsg = ''d1'', Params = [String_p ''F.Required'']\<rparr>,
          \<lparr>Name = ''Min'', ErrMsg = [], Params = [Int_p 1, String_p ''F.Min'']\<rparr>]"
  by (simp add: compile_defs trim_defs init_simps Let_def)

section \<open>Order of the compiled rules\<close>




section \<open>Results\<close>



section \<open>Key, field and name of an error\<close>

text \<open>
  C8, as the code has it. A failing rule application appends one \<open>Error\<close> to the store
  and returns a pointer to it; its \<open>Key\<close> is the key of the validator. When the key has
  exactly one \<open>'.'\<close>, \<open>Field\<close> is the text before it and \<open>Name\<close> the text after it. When the
  key has no \<open>'.'\<close> or more than one, \<open>Field\<close> is empty and \<open>Name\<close> is the whole key. For
  the rules that \<open>Valid\<close> dispatches the key is \<open>"<field>.<ruleName>"\<close>: it is the last
  parameter of every compiled descriptor, and the last parameter is the key that each
  rule method gives its validator.
\<close>

theorem apply_error_fields:
  assumes "\<not> IsSatisfied L c obj"
  shows "(let r = fst (Validation_apply L c obj d (h, v));
              h' = fst (snd (Validation_apply L c obj d (h, v)));
              e = h' ! length h;
              dots = length (filter (\<lambda>x. x = CHR ''.'') (GetKey c))
          in r = \<lparr>Error = Some (length h), Ok = False\<rparr>
             \<and> length h' = Suc (length h)
             \<and> Key e = GetKey c
             \<and> (dots = 1 \<longrightarrow>
                  GetKey c = Field' e @ ''.'' @ Name' e
                  \<and> CHR ''.'' \<notin> set (Field' e) \<and> CHR ''.'' \<notin> set (Name' e))
             \<and> (dots \<noteq> 1 \<longrightarrow> Field' e = [] \<and> Name' e = GetKey c))
         \<and> (\<forall>fs rx f vfs vf.
               getValidFuncs fs rx f = Inr vfs \<and> vf \<in> set vfs \<longrightarrow>
               Params vf \<noteq> [] \<and> last (Params vf) = String_p (FieldName f @ ''.'' @ Name vf))
         \<and> (\<forall>m ps c' (obj' :: 'b option) d'.
               chkOf m (mergeParam obj' d' ps) = Some (c', obj', d') \<longrightarrow>
               ps \<noteq> [] \<and> last ps = String_p (GetKey c'))"
proof -
  let ?e = "applyError L c obj d"
  let ?dots = "length (filter (\<lambda>x. x = CHR ''.'') (GetKey c))"
  have st: "Validation_apply L c obj d (h, v)
     = (\<lparr>Error = Some (length h), Ok = False\<rparr>, setError (length h) (h @ [?e], v))"
    by (rule apply_failing [OF assms])
  have h': "fst (snd (Validation_apply L c obj d (h, v))) = h @ [?e]"
    by (simp add: st setError_def Let_def)
  have one: "?dots = 1 \<longrightarrow> GetKey c = Field' ?e @ ''.'' @ Name' ?e
      \<and> CHR ''.'' \<notin> set (Field' ?e) \<and> CHR ''.'' \<notin> set (Name' ?e)"
  proof
    assume "?dots = 1"
    from key_one_dot [OF this] obtain a b where
      "Split (GetKey c) (CHR ''.'') = [a, b]" "GetKey c = a @ ''.'' @ b"
      "CHR ''.'' \<notin> set a" "CHR ''.'' \<notin> set b" by blast
    then show "GetKey c = Field' ?e @ ''.'' @ Name' ?e
      \<and> CHR ''.'' \<notin> set (Field' ?e) \<and> CHR ''.'' \<notin> set (Name' ?e)"
      by (simp add: applyError_simps)
  qed
  have other: "?dots \<noteq> 1 \<longrightarrow> Field' ?e = [] \<and> Name' ?e = GetKey c"
    by (simp add: applyError_simps Split_length)
  have k: "\<forall>fs rx f vfs vf.
               getValidFuncs fs rx f = Inr vfs \<and> vf \<in> set vfs \<longrightarrow>
               Params vf \<noteq> [] \<and> last (Params vf) = String_p (FieldName f @ ''.'' @ Name vf)"
    using compiled_key by blast
  have ck: "\<forall>m ps c' (obj' :: 'b option) d'.
               chkOf m (mergeParam obj' d' ps) = Some (c', obj', d') \<longrightarrow>
               ps \<noteq> [] \<and> last ps = String_p (GetKey c')"
    using chkOf_key by blast
  show ?thesis
    unfolding Let_def h' using st one other k ck
    by (simp add: applyError_simps(1))
qed

text \<open>The key \<open>Name.Required\<close> gives the field \<open>Name\<close> and the name \<open>Required\<close>.\<close>

theorem apply_error_fields_witness:
  "\<not> IsSatisfied demoLib (Required_chk ''Name.Required'') (Some 0)
   \<and> (let e = fst (snd (Validation_apply demoLib (Required_chk ''Name.Required'') (Some 0) []
                          ([], emptyContext))) ! 0
      in Key e = ''Name.Required''
         \<and> ''Name.Required'' = Field' e @ ''.'' @ Name' e
         \<and> CHR ''.'' \<notin> set (Field' e) \<and> CHR ''.'' \<notin> set (Name' e))"
proof -
  have n: "\<not> IsSatisfied demoLib (Required_chk ''Name.Required'') (Some 0)"
    by (simp add: demo_defs)
  have d: "length (filter (\<lambda>x. x = CHR ''.'') ''Name.Required'') = 1"
    by simp
  have k: "GetKey (Required_chk ''Name.Required'') = ''Name.Required''" by simp
  have z: "length ([] :: int Error list) = 0" by simp
  note T = apply_error_fields [OF n, of "[]" "[]" emptyContext, where 'b = int,
      unfolded Let_def z k, THEN conjunct1]
  from T d have "Key (fst (snd (Validation_apply demoLib (Required_chk ''Name.Required'') (Some 0) []
                          ([], emptyContext))) ! 0) = ''Name.Required''
         \<and> ''Name.Required'' = Field' (fst (snd (Validation_apply demoLib (Required_chk ''Name.Required'') (Some 0) []
                          ([], emptyContext))) ! 0) @ ''.'' @ Name' (fst (snd (Validation_apply demoLib (Required_chk ''Name.Required'') (Some 0) []
                          ([], emptyContext))) ! 0)
         \<and> CHR ''.'' \<notin> set (Field' (fst (snd (Validation_apply demoLib (Required_chk ''Name.Required'') (Some 0) []
                          ([], emptyContext))) ! 0)) \<and> CHR ''.'' \<notin> set (Name' (fst (snd (Validation_apply demoLib (Required_chk ''Name.Required'') (Some 0) []
                          ([], emptyContext))) ! 0))"
    by blast
  with n show ?thesis unfolding Let_def by (rule conjI)
qed

text \<open>
  The claim splits every key at its first \<open>'.'\<close>. The key \<open>a.b.c\<close>, given to
  \<open>v.Required(obj, "a.b.c", "")\<close>, has three parts: the error has the empty \<open>Field\<close>
  and the whole key as \<open>Name\<close>, not \<open>a\<close> and \<open>b.c\<close>.
\<close>

theorem key_with_two_dots_not_split:
  "(let e = fst (snd (Validation_apply demoLib (Required_chk ''a.b.c'') (Some 0) []
                        ([], emptyContext))) ! 0
    in Key e = ''a.b.c'' \<and> Field' e = [] \<and> Name' e = ''a.b.c''
       \<and> Field' e \<noteq> ''a'' \<and> Name' e \<noteq> ''b.c'')"
  by (simp add: Validation_apply_def demo_defs setError_def Let_def)

section \<open>The first error of a field wins\<close>




section \<open>Valid on a context that already holds errors\<close>




section \<open>Valid stops at the first failure\<close>

text \<open>
  C1, as the code has it. Let the argument of \<open>Valid\<close> be a struct or a pointer, not nil,
  to one; let every annotation of the record compile, let the context hold no error when
  \<open>Valid\<close> is called, and let every field that has a rule be exported and hold a value
  other than the nil interface. If every rule of the record holds, \<open>Valid\<close> returns nil, leaves the context
  as it was and has dispatched every rule, in order. If the rules before some rule hold
  and that rule is dispatched to a validator which the value does not satisfy, \<open>Valid\<close>
  returns the message of the error this rule records (its description unless that is
  blank, else the validator's default message); that error is the only one in the
  context, and the rules dispatched are the ones before it and the rule itself: no
  later rule of the field and no later field is evaluated. As long as the built-in
  \<open>Match\<close> is registered under its name, every compiled rule is dispatched to a
  validator, so the two cases are the only ones.
\<close>

theorem Valid_first_failure:
  assumes "Errors v = []"
    and "\<forall>(f, val) \<in> set fl. \<exists>vfs. getValidFuncs fs rx f = Inr vfs"
    and "\<forall>(val, vf) \<in> set (rulesOf fs rx fl). val \<noteq> None"
    and "obj = Struct fl \<or> obj = StructPtr fl"
    and "\<forall>(f, val) \<in> set fl. getValidFuncs fs rx f = Inr [] \<or> IsExported f"
  shows "((\<forall>r \<in> set (rulesOf fs rx fl). holds L fs r) \<longrightarrow>
            Valid L fs rx (h, v) obj = (None, (h, v), map snd (rulesOf fs rx fl)))
       \<and> (\<forall>before val vf after c.
             rulesOf fs rx fl = before @ (val, vf) # after
             \<and> (\<forall>r \<in> set before. holds L fs r)
             \<and> resolve fs vf = Some c \<and> \<not> IsSatisfied L c val \<longrightarrow>
             (let msg = (if TrimSpace (ErrMsg vf) = [] then DefaultMessage L c else ErrMsg vf);
                  st' = snd (Validation_apply L c val (ErrMsg vf) (h, v))
              in Valid L fs rx (h, v) obj = (Some (ErrorMessage msg), st', map snd before @ [vf])
                 \<and> Errors (snd st') = [length h]
                 \<and> Message (fst st' ! length h) = msg))
       \<and> (fs ''Match'' = Some (Method Match_m) \<longrightarrow>
            (\<forall>r \<in> set (rulesOf fs rx fl). resolve fs (snd r) \<noteq> None))"
proof (intro conjI impI allI)
  assume "\<forall>r \<in> set (rulesOf fs rx fl). holds L fs r"
  from fieldLoop_all [OF assms(1-3) this assms(5), of h] assms(4)
  show "Valid L fs rx (h, v) obj = (None, (h, v), map snd (rulesOf fs rx fl))"
    by (auto simp: Valid_def)
next
  fix before val vf after c
  assume a: "rulesOf fs rx fl = before @ (val, vf) # after
             \<and> (\<forall>r \<in> set before. holds L fs r)
             \<and> resolve fs vf = Some c \<and> \<not> IsSatisfied L c val"
  let ?msg = "if TrimSpace (ErrMsg vf) = [] then DefaultMessage L c else ErrMsg vf"
  let ?st = "snd (Validation_apply L c val (ErrMsg vf) (h, v))"
  from a have n: "\<not> IsSatisfied L c val" by simp
  from a fieldLoop_first [OF assms(1-3) _ _ _ _ assms(5), of before val vf after L c h] assms(4)
  have 1: "Valid L fs rx (h, v) obj = (Some (ErrorMessage ?msg), ?st, map snd before @ [vf])"
    by (auto simp: Valid_def)
  have 2: "Errors (snd ?st) = [length h]"
    by (simp add: apply_failing [OF n] setError_Errors assms(1))
  have 3: "Message (fst ?st ! length h) = ?msg"
    by (simp add: apply_failing [OF n] setError_def Let_def applyError_simps)
  from 1 2 3
  show "let msg = ?msg; st' = ?st
        in Valid L fs rx (h, v) obj = (Some (ErrorMessage msg), st', map snd before @ [vf])
           \<and> Errors (snd st') = [length h]
           \<and> Message (fst st' ! length h) = msg"
    by (simp add: Let_def)
next
  assume "fs ''Match'' = Some (Method Match_m)"
  from rulesOf_resolve [OF assms(2) this]
  show "\<forall>r \<in> set (rulesOf fs rx fl). resolve fs (snd r) \<noteq> None" .
qed

text \<open>
  \<open>Name\<close> is 5, \<open>Amount\<close> is 141 with \<open>Required;Range(1, 140)\<close> and the descriptions
  \<open>d1;d2\<close>, \<open>Count\<close> is 0 with \<open>Required\<close>: \<open>Valid\<close> stops at \<open>Range\<close> with \<open>d2\<close>, and the
  \<open>Required\<close> rule of \<open>Count\<close> is not dispatched.
\<close>

theorem Valid_first_failure_witness:
  "Valid demoLib (init :: int CustomFunc Funcs) (\<lambda>p. True) ([], emptyContext)
     (Struct [(\<lparr>FieldName = ''Name'', PkgPath = [], validTag = ''Required'', vdescTag = ''name required''\<rparr>,
               Some 5),
              (\<lparr>FieldName = ''Amount'', PkgPath = [], validTag = ''Required;Range(1, 140)'',
                vdescTag = ''d1;d2''\<rparr>, Some 141),
              (\<lparr>FieldName = ''Count'', PkgPath = [], validTag = ''Required'', vdescTag = []\<rparr>, Some 0)])
   = (Some (ErrorMessage ''d2''),
      snd (Validation_apply demoLib (Range_chk 1 140 ''Amount.Range'') (Some 141) ''d2''
             ([], emptyContext)),
      [\<lparr>Name = ''Required'', ErrMsg = ''name required'', Params = [String_p ''Name.Required'']\<rparr>,
       \<lparr>Name = ''Required'', ErrMsg = ''d1'', Params = [String_p ''Amount.Required'']\<rparr>,
       \<lparr>Name = ''Range'', ErrMsg = ''d2'',
         Params = [Int_p 1, Int_p 140, String_p ''Amount.Range'']\<rparr>])"
proof -
  let ?fs = "init :: int CustomFunc Funcs"
  let ?rx = "\<lambda>p :: string. True"
  let ?f1 = "\<lparr>FieldName = ''Name'', PkgPath = [], validTag = ''Required'', vdescTag = ''name required''\<rparr>"
  let ?f2 = "\<lparr>FieldName = ''Amount'', PkgPath = [], validTag = ''Required;Range(1, 140)'',
                vdescTag = ''d1;d2''\<rparr>"
  let ?f3 = "\<lparr>FieldName = ''Count'', PkgPath = [], validTag = ''Required'', vdescTag = []\<rparr>"
  let ?r1 = "\<lparr>Name = ''Required'', ErrMsg = ''name required'',
              Params = [String_p ''Name.Required'']\<rparr>"
  let ?r2 = "\<lparr>Name = ''Required'', ErrMsg = ''d1'', Params = [String_p ''Amount.Required'']\<rparr>"
  let ?r3 = "\<lparr>Name = ''Range'', ErrMsg = ''d2'',
              Params = [Int_p 1, Int_p 140, String_p ''Amount.Range'']\<rparr>"
  let ?r4 = "\<lparr>Name = ''Required'', ErrMsg = [], Params = [String_p ''Count.Required'']\<rparr>"
  let ?fl = "[(?f1, Some (5 :: int)), (?f2, Some 141), (?f3, Some 0)]"
  have g1: "getValidFuncs ?fs ?rx ?f1 = Inr [?r1]"
    by (simp add: compile_defs trim_defs init_simps Let_def)
  have g2: "getValidFuncs ?fs ?rx ?f2 = Inr [?r2, ?r3]"
    by (simp add: compile_defs trim_defs init_simps Let_def)
  have g3: "getValidFuncs ?fs ?rx ?f3 = Inr [?r4]"
    by (simp add: compile_defs trim_defs init_simps Let_def)
  have ro: "rulesOf ?fs ?rx ?fl
      = [(Some 5, ?r1), (Some 141, ?r2)] @ (Some 141, ?r3) # [(Some 0, ?r4)]"
    by (simp add: rulesOf_def g1 g2 g3)
  have c: "\<forall>(f, val) \<in> set ?fl. \<exists>vfs. getValidFuncs ?fs ?rx f = Inr vfs"
    by (simp add: g1 g2 g3)
  have nn: "\<forall>(val, vf) \<in> set (rulesOf ?fs ?rx ?fl). val \<noteq> None"
    unfolding ro by simp
  have fr: "Errors emptyContext = []" by (simp add: emptyContext_def)
  have h: "\<forall>r \<in> set [(Some 5, ?r1), (Some 141, ?r2)]. holds demoLib ?fs r"
    by (simp add: holds_def resolve_def init_simps chkOf_def args0_def mergeParam_def
        demoLib_def)
  have rs: "resolve ?fs ?r3 = Some (Range_chk 1 140 ''Amount.Range'')"
    by (simp add: resolve_def init_simps chkOf_def args2_def mergeParam_def)
  have ns: "\<not> IsSatisfied demoLib (Range_chk 1 140 ''Amount.Range'') (Some 141)"
    by (simp add: demoLib_def)
  have t: "TrimSpace ''d2'' \<noteq> []" by (simp add: trim_defs)
  have ex: "\<forall>(f, val) \<in> set ?fl. getValidFuncs ?fs ?rx f = Inr [] \<or> IsExported f"
    by (simp add: IsExported_def)
  from Valid_first_failure [OF fr c nn _ ex, of "Struct ?fl" demoLib "[]",
      THEN conjunct2, THEN conjunct1, rule_format,
      of "[(Some 5, ?r1), (Some 141, ?r2)]" "Some 141" ?r3 "[(Some 0, ?r4)]"
         "Range_chk 1 140 ''Amount.Range''"]
    ro h rs ns t
  show ?thesis by (simp add: Let_def)
qed

text \<open>
  The claim has \<open>Valid\<close> return nil whenever every rule of every field is satisfied.
  On a context that already holds an error (here recorded by \<open>SetError\<close>), the only rule
  of the record holds and \<open>Valid\<close> still returns an error, the old one.
\<close>

theorem Valid_stale_context_not_nil:
  "rulesOf (init :: int CustomFunc Funcs) (\<lambda>p. True)
     [(\<lparr>FieldName = ''Amount'', PkgPath = [], validTag = ''Required'', vdescTag = []\<rparr>, Some 5)]
     = [(Some 5, \<lparr>Name = ''Required'', ErrMsg = [], Params = [String_p ''Amount.Required'']\<rparr>)]
   \<and> holds demoLib (init :: int CustomFunc Funcs)
        (Some 5, \<lparr>Name = ''Required'', ErrMsg = [], Params = [String_p ''Amount.Required'']\<rparr>)
   \<and> Valid demoLib (init :: int CustomFunc Funcs) (\<lambda>p. True)
        (snd (SetError ([], emptyContext) ''Other'' ''old''))
        (Struct [(\<lparr>FieldName = ''Amount'', PkgPath = [], validTag = ''Required'', vdescTag = []\<rparr>, Some 5)])
       = (Some (ErrorMessage ''old''), snd (SetError ([], emptyContext) ''Other'' ''old''),
          [\<lparr>Name = ''Required'', ErrMsg = [], Params = [String_p ''Amount.Required'']\<rparr>])"
proof -
  have g: "getValidFuncs (init :: int CustomFunc Funcs) (\<lambda>p. True)
      \<lparr>FieldName = ''Amount'', PkgPath = [], validTag = ''Required'', vdescTag = []\<rparr>
     = Inr [\<lparr>Name = ''Required'', ErrMsg = [], Params = [String_p ''Amount.Required'']\<rparr>]"
    by (simp add: compile_defs trim_defs init_simps Let_def)
  show ?thesis
    by (simp add: rulesOf_def g holds_def resolve_def init_simps run_defs demo_defs
        SetError_def NumIn_def recv_k_def obj_k_def Let_def)
qed

text \<open>
  Why the theorem asks for a struct or a pointer that is not nil, and for exported
  fields that do not hold the nil interface. On a field that holds the nil interface
  \<open>Required\<close> is never evaluated: \<open>reflect\<close> refuses the nil argument, and \<open>Valid\<close> returns
  the recovered panic with no error recorded. On a field that is not exported, on a nil
  pointer to a struct with a rule, and on the nil interface, \<open>Valid\<close> panics.
\<close>

lemma Valid_nil_interface:
  "Valid demoLib (init :: int CustomFunc Funcs) (\<lambda>p. True) ([], emptyContext)
     (Struct [(\<lparr>FieldName = ''Amount'', PkgPath = [], validTag = ''Required'', vdescTag = []\<rparr>,
               None)])
   = (Some (Recovered ''reflect: Call using zero Value argument''), ([], emptyContext),
      [\<lparr>Name = ''Required'', ErrMsg = [], Params = [String_p ''Amount.Required'']\<rparr>])"
proof -
  have g: "getValidFuncs (init :: int CustomFunc Funcs) (\<lambda>p. True)
      \<lparr>FieldName = ''Amount'', PkgPath = [], validTag = ''Required'', vdescTag = []\<rparr>
     = Inr [\<lparr>Name = ''Required'', ErrMsg = [], Params = [String_p ''Amount.Required'']\<rparr>]"
    by (simp add: compile_defs trim_defs init_simps Let_def)
  show ?thesis
    by (simp add: g init_simps run_defs demo_defs NumIn_def recv_k_def obj_k_def)
qed

lemma Valid_panics:
  "Valid demoLib (init :: int CustomFunc Funcs) (\<lambda>p. True) ([], emptyContext)
     (Struct [(\<lparr>FieldName = ''name'', PkgPath = ''main'', validTag = ''Required'',
                vdescTag = []\<rparr>, Some 5)])
   = (Some (Panic ''reflect.Value.Interface: cannot return value obtained from unexported field or method''),
      ([], emptyContext), [])"
  "Valid demoLib (init :: int CustomFunc Funcs) (\<lambda>p. True) ([], emptyContext)
     (NilStructPtr [\<lparr>FieldName = ''Id'', PkgPath = [], validTag = [], vdescTag = []\<rparr>,
                    \<lparr>FieldName = ''Amount'', PkgPath = [], validTag = ''Required'',
                      vdescTag = []\<rparr>])
   = (Some (Panic ''reflect: call of reflect.Value.Field on zero Value''),
      ([], emptyContext), [])"
  "Valid demoLib (init :: int CustomFunc Funcs) (\<lambda>p. True) ([], emptyContext) Nil_in
   = (Some (Panic ''invalid memory address or nil pointer dereference''),
      ([], emptyContext), [])"
proof -
  have g: "getValidFuncs (init :: int CustomFunc Funcs) (\<lambda>p. True)
      \<lparr>FieldName = ''name'', PkgPath = ''main'', validTag = ''Required'', vdescTag = []\<rparr>
     = Inr [\<lparr>Name = ''Required'', ErrMsg = [], Params = [String_p ''name.Required'']\<rparr>]"
    by (simp add: compile_defs trim_defs init_simps Let_def)
  have g1: "getValidFuncs (init :: int CustomFunc Funcs) (\<lambda>p. True)
      \<lparr>FieldName = ''Id'', PkgPath = [], validTag = [], vdescTag = []\<rparr> = Inr []"
    by (simp add: getValidFuncs_def trim_defs)
  have g2: "getValidFuncs (init :: int CustomFunc Funcs) (\<lambda>p. True)
      \<lparr>FieldName = ''Amount'', PkgPath = [], validTag = ''Required'', vdescTag = []\<rparr>
     = Inr [\<lparr>Name = ''Required'', ErrMsg = [], Params = [String_p ''Amount.Required'']\<rparr>]"
    by (simp add: compile_defs trim_defs init_simps Let_def)
  show "Valid demoLib (init :: int CustomFunc Funcs) (\<lambda>p. True) ([], emptyContext)
     (Struct [(\<lparr>FieldName = ''name'', PkgPath = ''main'', validTag = ''Required'',
                vdescTag = []\<rparr>, Some 5)])
   = (Some (Panic ''reflect.Value.Interface: cannot return value obtained from unexported field or method''),
      ([], emptyContext), [])"
    by (simp add: g Valid_def FieldInterface_def IsExported_def)
  show "Valid demoLib (init :: int CustomFunc Funcs) (\<lambda>p. True) ([], emptyContext)
     (NilStructPtr [\<lparr>FieldName = ''Id'', PkgPath = [], validTag = [], vdescTag = []\<rparr>,
                    \<lparr>FieldName = ''Amount'', PkgPath = [], validTag = ''Required'',
                      vdescTag = []\<rparr>])
   = (Some (Panic ''reflect: call of reflect.Value.Field on zero Value''),
      ([], emptyContext), [])"
    by (simp add: g1 g2 Valid_def FieldInterface_def)
  show "Valid demoLib (init :: int CustomFunc Funcs) (\<lambda>p. True) ([], emptyContext) Nil_in
   = (Some (Panic ''invalid memory address or nil pointer dereference''),
      ([], emptyContext), [])"
    by (simp add: Valid_def)
qed

end
